theory Spec2Isabelle
  imports Main
begin

chapter \<open>The workbook-composition engine of the Excel API service\<close>

text \<open>
  A shallow embedding of \<^verbatim>\<open>ExcelService\<close> (the class in the service module of the
  repository): the address resolver \<^verbatim>\<open>getCellAddress\<close>, the style normaliser
  (\<^verbatim>\<open>normalizeColor\<close>, \<^verbatim>\<open>applyCellStyle\<close>, \<^verbatim>\<open>applyCellDataType\<close>), the range and
  table writers, the auto-width pass of \<^verbatim>\<open>applySheetFormatting\<close> and the template
  filler \<^verbatim>\<open>fillWorksheetTemplate\<close>.

  Conventions of the embedding.
  \<^item> A JavaScript value is a \<open>jvalue\<close>. Numbers are integers (\<open>int\<close>): fractions, NaN,
    infinities and the loss of precision beyond \<open>2^53\<close> are outside the model.
  \<^item> A JavaScript string is a \<open>string\<close>; a \<open>char\<close> stands for a UTF-16 code unit below
    256, so the model covers Latin-1 text, and case conversion covers ASCII letters.
  \<^item> An object is an association list in insertion order with distinct keys, as
    \<^verbatim>\<open>JSON.parse\<close> builds it. Property lookup sees the own properties of a value and
    then the members it inherits from its prototype chain (\<^verbatim>\<open>constructor\<close>,
    \<^verbatim>\<open>toString\<close>, ...), as listed by ECMAScript 2023.
  \<^item> An exception is a value of type \<open>js_error\<close>; a function that can throw returns a
    sum, \<open>Inl\<close> the error. A \<^verbatim>\<open>try\<close>/\<^verbatim>\<open>catch\<close> that logs and continues returns the
    state reached together with the warnings logged.
  \<^item> The ExcelJS library (version 4) is not part of the repository. Its worksheet is
    modelled by what the service observes of it: for the writers, cells found by address
    (\<^verbatim>\<open>getCell\<close>, which refuses an address it cannot decode) and \<^verbatim>\<open>addTable\<close>, which
    checks the table and stores its header and rows in the cells; for auto-width and the
    template filler, a grid of rows and their cells in order (\<^verbatim>\<open>eachRow\<close>,
    \<^verbatim>\<open>eachCell\<close>, \<^verbatim>\<open>getRow\<close>), with \<^verbatim>\<open>insertRow\<close> putting the given values in a new
    row and moving the rows below down by one.
\<close>

section \<open>JavaScript values\<close>

text \<open>
  The values of JSON, \<^verbatim>\<open>undefined\<close>, and \<open>JNative s\<close>: an object of the runtime that is
  no JSON value (a built-in function, the prototype object of the strings, of the numbers
  or of the booleans), given by its string form \<open>s\<close>.
\<close>

datatype jvalue =
    JUndefined
  | JNull
  | JBool bool
  | JNum int
  | JStr string
  | JArr "jvalue list"
  | JObj "(string \<times> jvalue) list"
  | JNative string

datatype js_error = TypeError string | Error string

text \<open>The message of an exception, as \<^verbatim>\<open>error.message\<close> reads it.\<close>

fun message :: "js_error \<Rightarrow> string" where
  "message (TypeError m) = m"
| "message (Error m) = m"

text \<open>\<^verbatim>\<open>APIError(message, statusCode)\<close> of the error-handling module.\<close>

datatype api_error = APIError string nat

text \<open>Truthiness, as \<^verbatim>\<open>if (v)\<close>, \<^verbatim>\<open>v || d\<close> and \<^verbatim>\<open>v ? a : b\<close> test it.\<close>

fun truthy :: "jvalue \<Rightarrow> bool" where
  "truthy JUndefined = False"
| "truthy JNull = False"
| "truthy (JBool b) = b"
| "truthy (JNum n) = (n \<noteq> 0)"
| "truthy (JStr s) = (s \<noteq> [])"
| "truthy (JArr xs) = True"
| "truthy (JObj kvs) = True"
| "truthy (JNative s) = True"

text \<open>\<^verbatim>\<open>a || b\<close>.\<close>

definition js_or :: "jvalue \<Rightarrow> jvalue \<Rightarrow> jvalue" where
  "js_or a b = (if truthy a then a else b)"


subsection \<open>Numbers and strings\<close>

text \<open>\<^verbatim>\<open>a % b\<close> on integers: the remainder takes the sign of the dividend.\<close>

definition js_rem :: "int \<Rightarrow> int \<Rightarrow> int" where
  "js_rem a b = sgn a * (\<bar>a\<bar> mod \<bar>b\<bar>)"

text \<open>The decimal digits of a natural number, most significant first.\<close>

fun digits_of :: "nat \<Rightarrow> string" where
  "digits_of n =
     (if n < 10 then [char_of (48 + n)]
      else digits_of (n div 10) @ [char_of (48 + n mod 10)])"

declare digits_of.simps [simp del]

text \<open>\<^verbatim>\<open>String(n)\<close> and \<^verbatim>\<open>`${n}`\<close> for an integer \<open>n\<close>.\<close>

definition number_toString :: "int \<Rightarrow> string" where
  "number_toString n =
     (if n < 0 then CHR ''-'' # digits_of (nat (- n)) else digits_of (nat n))"

definition is_digit :: "char \<Rightarrow> bool" where
  "is_digit c = (48 \<le> (of_char c :: nat) \<and> (of_char c :: nat) \<le> 57)"

definition is_upper :: "char \<Rightarrow> bool" where
  "is_upper c = (65 \<le> (of_char c :: nat) \<and> (of_char c :: nat) \<le> 90)"

definition is_lower :: "char \<Rightarrow> bool" where
  "is_lower c = (97 \<le> (of_char c :: nat) \<and> (of_char c :: nat) \<le> 122)"

text \<open>The class \<^verbatim>\<open>\w\<close> of a regular expression: letters, digits and the underscore.\<close>

definition is_word :: "char \<Rightarrow> bool" where
  "is_word c = (is_upper c \<or> is_lower c \<or> is_digit c \<or> c = CHR ''_'')"

text \<open>\<^verbatim>\<open>parseInt(s)\<close> of a string of decimal digits.\<close>

definition parse_digits :: "string \<Rightarrow> nat" where
  "parse_digits s = foldl (\<lambda>acc c. 10 * acc + (of_char c - 48)) 0 s"

text \<open>\<^verbatim>\<open>s.toUpperCase()\<close> and \<^verbatim>\<open>s.toLowerCase()\<close> on ASCII letters.\<close>

definition toUpperCase :: "string \<Rightarrow> string" where
  "toUpperCase s = map (\<lambda>c. if is_lower c then char_of ((of_char c :: nat) - 32) else c) s"

definition toLowerCase :: "string \<Rightarrow> string" where
  "toLowerCase s = map (\<lambda>c. if is_upper c then char_of ((of_char c :: nat) + 32) else c) s"

text \<open>\<^verbatim>\<open>xs.join(",")\<close> on strings.\<close>

fun join_comma :: "string list \<Rightarrow> string" where
  "join_comma [] = []"
| "join_comma [s] = s"
| "join_comma (s # t # ss) = s @ CHR '','' # join_comma (t # ss)"

text \<open>
  \<^verbatim>\<open>String(v)\<close>, which is also what \<^verbatim>\<open>v.toString()\<close> gives on a value that has the
  method and what \<^verbatim>\<open>String.prototype.replace\<close> makes of a callback's result. An
  array joins its elements with commas, \<^verbatim>\<open>null\<close> and \<^verbatim>\<open>undefined\<close> elements
  as empty strings; a built-in function reads \<^verbatim>\<open>function name() { [native code] }\<close>.
\<close>

fun js_toString :: "jvalue \<Rightarrow> string" where
  "js_toString JUndefined = ''undefined''"
| "js_toString JNull = ''null''"
| "js_toString (JBool b) = (if b then ''true'' else ''false'')"
| "js_toString (JNum n) = number_toString n"
| "js_toString (JStr s) = s"
| "js_toString (JArr xs) =
     join_comma (map (\<lambda>x. if x = JUndefined \<or> x = JNull then [] else js_toString x) xs)"
| "js_toString (JObj kvs) = ''[object Object]''"
| "js_toString (JNative s) = s"

subsection \<open>Objects\<close>

text \<open>
  An array index as a property key: the canonical decimal form of an integer below
  \<open>2^32 - 1\<close>.
\<close>

definition is_array_index :: "string \<Rightarrow> bool" where
  "is_array_index k =
     (k \<noteq> [] \<and> list_all is_digit k \<and> (k = ''0'' \<or> hd k \<noteq> CHR ''0'')
      \<and> parse_digits k < 4294967295)"

text \<open>
  The members that a value inherits. A built-in function is given by its name.
  \<^verbatim>\<open>Object.prototype\<close> has the constructor \<^verbatim>\<open>Object\<close>, the accessor \<^verbatim>\<open>__proto__\<close>,
  which reads the prototype of the receiver, and the methods \<open>object_methods\<close>;
  \<^verbatim>\<open>Array.prototype\<close>, \<^verbatim>\<open>String.prototype\<close>, \<^verbatim>\<open>Number.prototype\<close> and
  \<^verbatim>\<open>Boolean.prototype\<close> have a constructor and methods of their own and inherit the
  rest from \<^verbatim>\<open>Object.prototype\<close>. The lists are those of ECMAScript 2023; a method that
  a prototype overrides (\<^verbatim>\<open>toString\<close>, ...) has the same name as the one it hides.
\<close>

definition native_function :: "string \<Rightarrow> jvalue" where
  "native_function name = JNative (''function '' @ name @ ''() { [native code] }'')"

definition object_methods :: "string list" where
  "object_methods =
     [''__defineGetter__'', ''__defineSetter__'', ''hasOwnProperty'', ''__lookupGetter__'',
      ''__lookupSetter__'', ''isPrototypeOf'', ''propertyIsEnumerable'', ''toString'',
      ''valueOf'', ''toLocaleString'']"

definition array_methods :: "string list" where
  "array_methods =
     [''at'', ''concat'', ''copyWithin'', ''fill'', ''find'', ''findIndex'', ''findLast'',
      ''findLastIndex'', ''lastIndexOf'', ''pop'', ''push'', ''reverse'', ''shift'',
      ''unshift'', ''slice'', ''sort'', ''splice'', ''includes'', ''indexOf'', ''join'',
      ''keys'', ''entries'', ''values'', ''forEach'', ''filter'', ''flat'', ''flatMap'',
      ''map'', ''every'', ''some'', ''reduce'', ''reduceRight'', ''toReversed'',
      ''toSorted'', ''toSpliced'', ''with'']"

definition string_methods :: "string list" where
  "string_methods =
     [''anchor'', ''at'', ''big'', ''blink'', ''bold'', ''charAt'', ''charCodeAt'',
      ''codePointAt'', ''concat'', ''endsWith'', ''fontcolor'', ''fontsize'', ''fixed'',
      ''includes'', ''indexOf'', ''italics'', ''lastIndexOf'', ''link'', ''localeCompare'',
      ''match'', ''matchAll'', ''normalize'', ''padEnd'', ''padStart'', ''repeat'',
      ''replace'', ''replaceAll'', ''search'', ''slice'', ''small'', ''split'', ''strike'',
      ''sub'', ''substr'', ''substring'', ''startsWith'', ''sup'', ''trim'', ''trimStart'',
      ''trimEnd'', ''toLocaleLowerCase'', ''toLocaleUpperCase'', ''toLowerCase'',
      ''toUpperCase'']"

definition number_methods :: "string list" where
  "number_methods = [''toExponential'', ''toFixed'', ''toPrecision'']"

text \<open>
  The member \<open>k\<close> of a prototype with the constructor \<open>ctor\<close> and the methods \<open>methods\<close>,
  itself an object \<open>proto\<close> that inherits from \<^verbatim>\<open>Object.prototype\<close>; \<^verbatim>\<open>undefined\<close> when
  there is none.
\<close>

definition proto_lookup :: "string \<Rightarrow> jvalue \<Rightarrow> string list \<Rightarrow> string \<Rightarrow> jvalue" where
  "proto_lookup ctor proto methods k =
     (if k = ''constructor'' then native_function ctor
      else if k = ''__proto__'' then proto
      else if k \<in> set methods \<or> k \<in> set object_methods then native_function k
      else JUndefined)"

text \<open>
  What a value inherits under the key \<open>k\<close>. The prototype of the objects reads as an
  object without own properties, that of the arrays as an empty array;
  \<^verbatim>\<open>trimLeft\<close> and \<^verbatim>\<open>trimRight\<close> are the functions \<^verbatim>\<open>trimStart\<close> and \<^verbatim>\<open>trimEnd\<close>. The
  members of a built-in function or prototype object are not modelled: the service reads
  such a value only under the key \<^verbatim>\<open>fgColor\<close>, which it has not.
\<close>

fun inherited :: "jvalue \<Rightarrow> string \<Rightarrow> jvalue" where
  "inherited (JObj kvs) k = proto_lookup ''Object'' (JObj []) [] k"
| "inherited (JArr xs) k = proto_lookup ''Array'' (JArr []) array_methods k"
| "inherited (JStr s) k =
     (if k = ''trimLeft'' then native_function ''trimStart''
      else if k = ''trimRight'' then native_function ''trimEnd''
      else proto_lookup ''String'' (JNative []) string_methods k)"
| "inherited (JNum n) k = proto_lookup ''Number'' (JNative ''0'') number_methods k"
| "inherited (JBool b) k = proto_lookup ''Boolean'' (JNative ''false'') [] k"
| "inherited v k = JUndefined"

text \<open>
  \<^verbatim>\<open>o[k]\<close> on a receiver that is neither \<^verbatim>\<open>null\<close> nor \<^verbatim>\<open>undefined\<close>: the own property
  of an object, the element or the length of an array or a string, and otherwise the
  member inherited under that key, \<^verbatim>\<open>undefined\<close> when there is none. On \<^verbatim>\<open>null\<close> and
  \<^verbatim>\<open>undefined\<close> it is what optional chaining \<^verbatim>\<open>o?.k\<close> gives.
\<close>

fun js_get :: "jvalue \<Rightarrow> string \<Rightarrow> jvalue" where
  "js_get (JObj kvs) k =
     (case map_of kvs k of Some v \<Rightarrow> v | None \<Rightarrow> inherited (JObj kvs) k)"
| "js_get (JArr xs) k =
     (if is_array_index k \<and> parse_digits k < length xs then xs ! parse_digits k
      else if k = ''length'' then JNum (int (length xs))
      else inherited (JArr xs) k)"
| "js_get (JStr s) k =
     (if is_array_index k \<and> parse_digits k < length s then JStr [s ! parse_digits k]
      else if k = ''length'' then JNum (int (length s))
      else inherited (JStr s) k)"
| "js_get v k = inherited v k"

text \<open>\<^verbatim>\<open>o[k]\<close> on any receiver: reading a property of \<^verbatim>\<open>null\<close> or \<^verbatim>\<open>undefined\<close> throws.\<close>

fun js_get_checked :: "jvalue \<Rightarrow> string \<Rightarrow> js_error + jvalue" where
  "js_get_checked JUndefined k = Inl (TypeError ''Cannot read properties of undefined'')"
| "js_get_checked JNull k = Inl (TypeError ''Cannot read properties of null'')"
| "js_get_checked v k = Inr (js_get v k)"

text \<open>
  The own keys of an object in the order of \<^verbatim>\<open>Object.keys\<close>: the keys that are array
  indices first, in ascending numeric order, then the other keys in insertion order.
\<close>

definition own_keys :: "(string \<times> jvalue) list \<Rightarrow> string list" where
  "own_keys kvs =
     (let ks = map fst kvs
      in sort_key parse_digits (filter is_array_index ks)
         @ filter (\<lambda>k. \<not> is_array_index k) ks)"

text \<open>\<^verbatim>\<open>Object.keys(v)\<close>.\<close>

fun Object_keys :: "jvalue \<Rightarrow> js_error + string list" where
  "Object_keys JUndefined = Inl (TypeError ''Cannot convert undefined or null to object'')"
| "Object_keys JNull = Inl (TypeError ''Cannot convert undefined or null to object'')"
| "Object_keys (JObj kvs) = Inr (own_keys kvs)"
| "Object_keys (JArr xs) = Inr (map (\<lambda>i. number_toString (int i)) [0..<length xs])"
| "Object_keys (JStr s) = Inr (map (\<lambda>i. number_toString (int i)) [0..<length s])"
| "Object_keys v = Inr []"

section \<open>Address resolver\<close>

text \<open>
  \<^verbatim>\<open>
  static getCellAddress(startCol, row, colOffset = 0) {
    const colCode = startCol.charCodeAt(0) - 65 + colOffset;
    const colLetter = String.fromCharCode(65 + (colCode % 26));
    return `${colLetter}${row}`;
  }
  \<close>
  \<^verbatim>\<open>charCodeAt(0)\<close> of the empty string is NaN, which \<^verbatim>\<open>fromCharCode\<close> turns into
  the code unit 0. Otherwise the code is between \<open>65 - 25\<close> and \<open>65 + 25\<close>.
\<close>

definition getCellAddress :: "string \<Rightarrow> int \<Rightarrow> int \<Rightarrow> string" where
  "getCellAddress startCol row colOffset =
     (case startCol of
        [] \<Rightarrow> char_of (0::nat) # number_toString row
      | c # cs \<Rightarrow>
          (let colCode = of_char c - 65 + colOffset;
               colLetter = char_of (65 + js_rem colCode 26)
           in colLetter # number_toString row))"

text \<open>The zero-based index of a column letter.\<close>

definition column_index :: "char \<Rightarrow> int" where
  "column_index c = of_char c - 65"

text \<open>
  The pattern \<^verbatim>\<open>[A-Z]+[0-9]+\<close> that the specification requires of every address: a
  non-empty run of capital letters followed by a non-empty run of digits.
\<close>

definition address_pattern :: "string \<Rightarrow> bool" where
  "address_pattern s =
     (let letters = takeWhile is_upper s; rest = dropWhile is_upper s
      in letters \<noteq> [] \<and> rest \<noteq> [] \<and> list_all is_digit rest)"

section \<open>Style normaliser\<close>

text \<open>
  A cell as the service uses it: its value and the five style attributes the service
  assigns. An attribute never assigned is \<^verbatim>\<open>undefined\<close>.
\<close>

record cell =
  cvalue :: jvalue
  font :: jvalue
  fill :: jvalue
  alignment :: jvalue
  border :: jvalue
  numFmt :: jvalue

definition empty_cell :: cell where
  "empty_cell = \<lparr>cvalue = JNull, font = JUndefined, fill = JUndefined,
     alignment = JUndefined, border = JUndefined, numFmt = JUndefined\<rparr>"

text \<open>
  \<^verbatim>\<open>
  static normalizeColor(color) {
    if (!color) return 'FF000000';
    color = color.replace('#', '');
    if (color.length === 6) { color = 'FF' + color; }
    return color.toUpperCase();
  }
  \<close>
  \<^verbatim>\<open>replace\<close> with a string pattern removes the first \<^verbatim>\<open>#\<close> only. A truthy value
  that is not a string has no method \<^verbatim>\<open>replace\<close>: the call throws a TypeError. (The
  prototype object of the strings has the method, but it is read only under the key
  \<^verbatim>\<open>__proto__\<close>, which the style normaliser does not use.)
\<close>

definition normalizeColor :: "jvalue \<Rightarrow> js_error + string" where
  "normalizeColor color =
     (if \<not> truthy color then Inr ''FF000000''
      else case color of
        JStr s \<Rightarrow>
          (let c1 = remove1 CHR ''#'' s;
               c2 = (if length c1 = 6 then ''FF'' @ c1 else c1)
           in Inr (toUpperCase c2))
      | _ \<Rightarrow> Inl (TypeError ''color.replace is not a function''))"

text \<open>
  The object literal assigned to \<^verbatim>\<open>cell.font\<close>; evaluating it throws when
  \<^verbatim>\<open>normalizeColor\<close> does, before anything is assigned.
\<close>

definition font_literal :: "jvalue \<Rightarrow> js_error + jvalue" where
  "font_literal f =
     (case (if truthy (js_get f ''color'')
            then (case normalizeColor (js_get f ''color'') of
                    Inl e \<Rightarrow> Inl e
                  | Inr c \<Rightarrow> Inr (JObj [(''argb'', JStr c)]))
            else Inr JUndefined) of
        Inl e \<Rightarrow> Inl e
      | Inr color \<Rightarrow>
          Inr (JObj
            [(''name'', js_or (js_get f ''name'') (JStr ''Calibri'')),
             (''size'', js_or (js_get f ''size'') (JNum 11)),
             (''bold'', js_or (js_get f ''bold'') (JBool False)),
             (''italic'', js_or (js_get f ''italic'') (JBool False)),
             (''underline'', js_or (js_get f ''underline'') (JBool False)),
             (''color'', color)]))"

text \<open>
  The object literal assigned to \<^verbatim>\<open>cell.fill\<close>, from
  \<^verbatim>\<open>style.backgroundColor || style.fill?.fgColor\<close>.
\<close>

definition fill_literal :: "jvalue \<Rightarrow> js_error + jvalue" where
  "fill_literal style =
     (let bgColor = js_or (js_get style ''backgroundColor'')
                          (js_get (js_get style ''fill'') ''fgColor'')
      in case normalizeColor bgColor of
           Inl e \<Rightarrow> Inl e
         | Inr c \<Rightarrow>
             Inr (JObj
               [(''type'', JStr ''pattern''),
                (''pattern'', JStr ''solid''),
                (''fgColor'', JObj [(''argb'', JStr c)])]))"

definition alignment_literal :: "jvalue \<Rightarrow> jvalue" where
  "alignment_literal a =
     JObj
       [(''horizontal'', js_or (js_get a ''horizontal'') (JStr ''left'')),
        (''vertical'', js_or (js_get a ''vertical'') (JStr ''top'')),
        (''wrapText'', js_or (js_get a ''wrapText'') (JBool False)),
        (''indent'', js_or (js_get a ''indent'') (JNum 0))]"

definition thin :: jvalue where
  "thin = JObj [(''style'', JStr ''thin'')]"

definition border_literal :: "jvalue \<Rightarrow> jvalue" where
  "border_literal b =
     JObj
       [(''top'', js_or (js_get b ''top'') thin),
        (''left'', js_or (js_get b ''left'') thin),
        (''bottom'', js_or (js_get b ''bottom'') thin),
        (''right'', js_or (js_get b ''right'') thin)]"

text \<open>
  The last three statements of the body of \<^verbatim>\<open>applyCellStyle\<close>: alignment, border
  and number format. None of them can throw.
\<close>

definition style_tail :: "cell \<Rightarrow> jvalue \<Rightarrow> cell" where
  "style_tail cell style =
     (let c3 = (if truthy (js_get style ''alignment'')
                then cell\<lparr>alignment := alignment_literal (js_get style ''alignment'')\<rparr>
                else cell);
          c4 = (if truthy (js_get style ''border'')
                then c3\<lparr>border := border_literal (js_get style ''border'')\<rparr>
                else c3)
      in if truthy (js_get style ''numFmt'')
         then c4\<lparr>numFmt := js_get style ''numFmt''\<rparr>
         else c4)"

text \<open>
  The body of the \<^verbatim>\<open>try\<close> block of \<^verbatim>\<open>applyCellStyle\<close>, statement by statement: the
  cell as the statements have left it, and the exception if one was thrown. The cell
  is an object that the statements mutate, so what was assigned before an exception
  stays assigned.
\<close>

definition style_body :: "cell \<Rightarrow> jvalue \<Rightarrow> cell \<times> js_error option" where
  "style_body cell style =
     (if style = JUndefined \<or> style = JNull
      then (cell, Some (TypeError ''Cannot read properties of undefined''))
      else
        case (if truthy (js_get style ''font'')
              then (case font_literal (js_get style ''font'') of
                      Inl e \<Rightarrow> Inl e
                    | Inr f \<Rightarrow> Inr (cell\<lparr>font := f\<rparr>))
              else Inr cell) of
          Inl e \<Rightarrow> (cell, Some e)
        | Inr c1 \<Rightarrow>
            (case (if truthy (js_get style ''fill'') \<or> truthy (js_get style ''backgroundColor'')
                   then (case fill_literal style of
                           Inl e \<Rightarrow> Inl e
                         | Inr f \<Rightarrow> Inr (c1\<lparr>fill := f\<rparr>))
                   else Inr c1) of
               Inl e \<Rightarrow> (c1, Some e)
             | Inr c2 \<Rightarrow> (style_tail c2 style, None)))"

text \<open>
  \<^verbatim>\<open>
  static applyCellStyle(cell, style) {
    try { ... } catch (error) {
      logger.warn(`Style application failed: ${error.message}`);
    }
  }
  \<close>
  The result is the cell and the warnings logged.
\<close>

definition applyCellStyle :: "cell \<Rightarrow> jvalue \<Rightarrow> cell \<times> string list" where
  "applyCellStyle cell style =
     (case style_body cell style of
        (cell', None) \<Rightarrow> (cell', [])
      | (cell', Some e) \<Rightarrow> (cell', [''Style application failed: '' @ message e]))"

text \<open>
  \<^verbatim>\<open>
  static applyCellDataType(cell, dataType, format) {
    try {
      switch (dataType.toLowerCase()) {
        case 'number':     cell.numFmt = format || '0.00'; break;
        case 'currency':   cell.numFmt = format || '$#,##0.00'; break;
        case 'percentage': cell.numFmt = format || '0.00%'; break;
        case 'date':       cell.numFmt = format || 'mm/dd/yyyy'; break;
        case 'datetime':   cell.numFmt = format || 'mm/dd/yyyy hh:mm:ss'; break;
        case 'time':       cell.numFmt = format || 'hh:mm:ss'; break;
        case 'text':       cell.numFmt = '@'; break;
        default: break;
      }
    } catch (error) {
      logger.warn(`Data type application failed: ${error.message}`);
    }
  }
  \<close>
  A data type that is not a string has no method \<^verbatim>\<open>toLowerCase\<close>.
\<close>

definition applyCellDataType :: "cell \<Rightarrow> jvalue \<Rightarrow> jvalue \<Rightarrow> cell \<times> string list" where
  "applyCellDataType cell dataType format =
     (case dataType of
        JStr s \<Rightarrow>
          (let t = toLowerCase s in
           if t = ''number'' then (cell\<lparr>numFmt := js_or format (JStr ''0.00'')\<rparr>, [])
           else if t = ''currency'' then (cell\<lparr>numFmt := js_or format (JStr ''$#,##0.00'')\<rparr>, [])
           else if t = ''percentage'' then (cell\<lparr>numFmt := js_or format (JStr ''0.00%'')\<rparr>, [])
           else if t = ''date'' then (cell\<lparr>numFmt := js_or format (JStr ''mm/dd/yyyy'')\<rparr>, [])
           else if t = ''datetime'' then (cell\<lparr>numFmt := js_or format (JStr ''mm/dd/yyyy hh:mm:ss'')\<rparr>, [])
           else if t = ''time'' then (cell\<lparr>numFmt := js_or format (JStr ''hh:mm:ss'')\<rparr>, [])
           else if t = ''text'' then (cell\<lparr>numFmt := JStr ''@''\<rparr>, [])
           else (cell, []))
      | JUndefined \<Rightarrow>
          (cell, [''Data type application failed: Cannot read properties of undefined''])
      | JNull \<Rightarrow>
          (cell, [''Data type application failed: Cannot read properties of null''])
      | _ \<Rightarrow>
          (cell, [''Data type application failed: dataType.toLowerCase is not a function'']))"

section \<open>Range and table writers\<close>

text \<open>
  The worksheet as the writers see it: the cell that \<^verbatim>\<open>worksheet.getCell(address)\<close>
  returns (a cell never written is \<open>empty_cell\<close>), the lines that \<^verbatim>\<open>logger.warn\<close>
  has written, and the tables registered with \<^verbatim>\<open>worksheet.addTable\<close>. A cell is found
  by its address in the form that ExcelJS gives it: the letters of the column, then the
  number of the row.
\<close>

record table_reg =
  reg_name :: string
  reg_ref :: string
  reg_columns :: "string list"
  reg_rows :: "jvalue list list"

record worksheet =
  cell_at :: "string \<Rightarrow> cell"
  warnings :: "string list"
  tables :: "table_reg list"

definition empty_worksheet :: worksheet where
  "empty_worksheet = \<lparr>cell_at = (\<lambda>a. empty_cell), warnings = [], tables = []\<rparr>"

text \<open>\<^verbatim>\<open>cell.value = v\<close>: a cell assigned \<^verbatim>\<open>undefined\<close> is an empty cell, whose value
  reads \<^verbatim>\<open>null\<close>.\<close>

definition set_value :: "jvalue \<Rightarrow> cell \<Rightarrow> cell" where
  "set_value v c = c\<lparr>cvalue := (if v = JUndefined then JNull else v)\<rparr>"

text \<open>\<^verbatim>\<open>this.applyCellStyle(cell, style)\<close> on a cell in hand, keeping the warnings.\<close>

definition styled :: "jvalue \<Rightarrow> cell \<times> string list \<Rightarrow> cell \<times> string list" where
  "styled style cw =
     (case applyCellStyle (fst cw) style of (c', w') \<Rightarrow> (c', snd cw @ w'))"

text \<open>
  One step of a writer: the cell at an address is fetched, changed by \<open>f\<close> (which also
  returns the warnings it logs), and is then the cell at that address.
\<close>

definition update_cell ::
  "worksheet \<Rightarrow> string \<times> (cell \<Rightarrow> cell \<times> string list) \<Rightarrow> worksheet" where
  "update_cell ws af =
     (case snd af (cell_at ws (fst af)) of
        (c', w) \<Rightarrow> ws\<lparr>cell_at := (cell_at ws)(fst af := c'), warnings := warnings ws @ w\<rparr>)"

subsection \<open>Addresses in ExcelJS\<close>

text \<open>
  The loop of \<^verbatim>\<open>colCache.decodeAddress\<close>:
  \<^verbatim>\<open>
  for (let i = 0, char; i < value.length; i++) {
    char = value.charCodeAt(i);
    if (!hasRow && char >= 65 && char <= 90) {
      hasCol = true; col += value[i]; colNumber = colNumber * 26 + char - 64;
    } else if (char >= 48 && char <= 57) {
      hasRow = true; row += value[i]; rowNumber = rowNumber * 10 + char - 48;
    } else if (hasRow && hasCol && char !== 36) { break; }
  }
  \<close>
  The column and the row found so far are each the text and the number, \<open>None\<close> as long
  as \<^verbatim>\<open>hasCol\<close> or \<^verbatim>\<open>hasRow\<close> is false.
\<close>

fun decode_loop ::
  "string \<Rightarrow> (string \<times> nat) option \<Rightarrow> (string \<times> nat) option
     \<Rightarrow> (string \<times> nat) option \<times> (string \<times> nat) option" where
  "decode_loop [] col row = (col, row)"
| "decode_loop (ch # rest) col row =
     (if row = None \<and> is_upper ch
      then decode_loop rest
             (Some (case col of
                      None \<Rightarrow> ([ch], of_char ch - 64)
                    | Some (c, n) \<Rightarrow> (c @ [ch], n * 26 + (of_char ch - 64))))
             row
      else if is_digit ch
      then decode_loop rest col
             (Some (case row of
                      None \<Rightarrow> ([ch], of_char ch - 48)
                    | Some (r, n) \<Rightarrow> (r @ [ch], n * 10 + (of_char ch - 48))))
      else if row \<noteq> None \<and> col \<noteq> None \<and> ch \<noteq> CHR ''$'' then (col, row)
      else decode_loop rest col row)"

text \<open>
  \<^verbatim>\<open>colCache.decodeAddress(value)\<close>: a column beyond the last column of a sheet throws.
  \<^verbatim>\<open>
  if (!hasCol) { colNumber = undefined; }
  else if (colNumber > 16384) {
    throw new Error(`Out of bounds. Invalid column letter: ${col}`);
  }
  \<close>
\<close>

definition decodeAddress ::
  "string \<Rightarrow> js_error + ((string \<times> nat) option \<times> (string \<times> nat) option)" where
  "decodeAddress a =
     (case decode_loop a None None of
        (col, row) \<Rightarrow>
          (case col of
             None \<Rightarrow> Inr (col, row)
           | Some (c, n) \<Rightarrow>
               if 16384 < n then Inl (Error (''Out of bounds. Invalid column letter: '' @ c))
               else Inr (col, row)))"

text \<open>
  The exception of \<^verbatim>\<open>worksheet.getCell(a)\<close>, if any: the address is decoded; without a
  column no cell can be made (\<^verbatim>\<open>A Cell needs a Row\<close>), and without a row the address of
  the new cell does not pass \<^verbatim>\<open>validateAddress\<close>, which wants \<^verbatim>\<open>/^[A-Z]+\d+$/\<close>.
\<close>

definition getCell_check :: "string \<Rightarrow> js_error option" where
  "getCell_check a =
     (case decodeAddress a of
        Inl e \<Rightarrow> Some e
      | Inr (col, row) \<Rightarrow>
          (case col of
             None \<Rightarrow> Some (Error ''A Cell needs a Row'')
           | Some (c, n) \<Rightarrow>
               (case row of
                  None \<Rightarrow> Some (Error (''Invalid Address: '' @ c))
                | Some r \<Rightarrow> None)))"

text \<open>
  \<^verbatim>\<open>colCache.n2l(n)\<close>, the letters of the column with the number \<open>n\<close>, counted from 1:
  \<open>A\<close> to \<open>Z\<close>, then \<open>AA\<close>, \<open>AB\<close> and so on.
\<close>

fun n2l :: "nat \<Rightarrow> string" where
  "n2l n = (if n = 0 then [] else n2l ((n - 1) div 26) @ [char_of (65 + (n - 1) mod 26)])"

declare n2l.simps [simp del]

text \<open>\<^verbatim>\<open>colCache.encodeAddress(row, col)\<close>: the address of the cell in a row and a column.\<close>

definition encodeAddress :: "int \<Rightarrow> nat \<Rightarrow> string" where
  "encodeAddress row col = n2l col @ number_toString row"

text \<open>
  The number of the column that one capital letter names, counted from 1: what the loop of
  \<^verbatim>\<open>decodeAddress\<close> makes of the letter, \<^verbatim>\<open>char - 64\<close>.
\<close>

definition column_number :: "char \<Rightarrow> nat" where
  "column_number c = of_char c - 64"

subsection \<open>The anchor of a writer\<close>

text \<open>\<^verbatim>\<open>s.split(':')[0]\<close>.\<close>

definition split_first :: "string \<Rightarrow> string" where
  "split_first s = takeWhile (\<lambda>c. c \<noteq> CHR '':'') s"

text \<open>
  \<^verbatim>\<open>s.match(/\d+/)\<close> and \<^verbatim>\<open>s.match(/[A-Z]+/)\<close>: the first longest run of characters
  of the class, \<^verbatim>\<open>null\<close> when there is none.
\<close>

definition match_run :: "(char \<Rightarrow> bool) \<Rightarrow> string \<Rightarrow> string option" where
  "match_run P s =
     (let r = dropWhile (\<lambda>c. \<not> P c) s
      in if r = [] then None else Some (takeWhile P r))"

text \<open>
  The anchor of a writer: \<^verbatim>\<open>parseInt(startCell.match(/\d+/)[0])\<close> and then
  \<^verbatim>\<open>startCell.match(/[A-Z]+/)[0]\<close>. Indexing a failed match throws.
\<close>

definition parse_anchor :: "string \<Rightarrow> js_error + (int \<times> string)" where
  "parse_anchor startCell =
     (case match_run is_digit startCell of
        None \<Rightarrow> Inl (TypeError ''Cannot read properties of null'')
      | Some ds \<Rightarrow>
          (case match_run is_upper startCell of
             None \<Rightarrow> Inl (TypeError ''Cannot read properties of null'')
           | Some startCol \<Rightarrow> Inr (int (parse_digits ds), startCol)))"

subsection \<open>Range write\<close>

record rangeDef =
  r_range :: string
  r_data :: jvalue
  r_style :: jvalue

text \<open>
  The body of the inner \<^verbatim>\<open>forEach\<close> of \<^verbatim>\<open>processRange\<close>, on the cell fetched:
  \<^verbatim>\<open>
  cell.value = cellValue;
  if (rangeDef.style) { this.applyCellStyle(cell, rangeDef.style); }
  \<close>
\<close>

definition range_cell :: "jvalue \<Rightarrow> jvalue \<Rightarrow> cell \<Rightarrow> cell \<times> string list" where
  "range_cell style v c =
     (if truthy style then styled style (set_value v c, []) else (set_value v c, []))"

text \<open>The inner \<^verbatim>\<open>forEach\<close>: one row of data, which is written only if it is an array.\<close>

definition range_row :: "string \<Rightarrow> int \<Rightarrow> jvalue \<Rightarrow> worksheet \<Rightarrow> nat \<times> jvalue \<Rightarrow> worksheet" where
  "range_row startCol startRow style ws ir =
     (case snd ir of
        JArr rowData \<Rightarrow>
          foldl (\<lambda>w jv. update_cell w
                   (getCellAddress startCol (startRow + int (fst ir)) (int (fst jv)),
                    range_cell style (snd jv)))
            ws (enumerate 0 rowData)
      | _ \<Rightarrow> ws)"

text \<open>
  \<^verbatim>\<open>
  static async processRange(worksheet, rangeDef) {
    try {
      const range = worksheet.getCell(rangeDef.range);
      if (rangeDef.data && Array.isArray(rangeDef.data)) {
        const startCell = rangeDef.range.split(':')[0];
        const startRow = parseInt(startCell.match(/\d+/)[0]);
        const startCol = startCell.match(/[A-Z]+/)[0];
        rangeDef.data.forEach((rowData, rowIndex) => {
          if (Array.isArray(rowData)) {
            rowData.forEach((cellValue, colIndex) => {
              const cellAddress = this.getCellAddress(startCol, startRow + rowIndex, colIndex);
              const cell = worksheet.getCell(cellAddress);
              ...
            });
          }
        });
      }
    } catch (error) {
      throw new APIError(`Range processing failed: ${error.message}`, 422);
    }
  }
  \<close>
  The cell fetched in the first line is not used, but fetching it throws when ExcelJS
  cannot decode the range string. The addresses of the inner loop are a capital letter
  and a number, which \<^verbatim>\<open>getCell\<close> accepts.
\<close>

definition processRange :: "worksheet \<Rightarrow> rangeDef \<Rightarrow> api_error + worksheet" where
  "processRange ws rangeDef =
     (case getCell_check (r_range rangeDef) of
        Some e \<Rightarrow> Inl (APIError (''Range processing failed: '' @ message e) 422)
      | None \<Rightarrow>
          (case r_data rangeDef of
             JArr rows \<Rightarrow>
               (case parse_anchor (split_first (r_range rangeDef)) of
                  Inl e \<Rightarrow> Inl (APIError (''Range processing failed: '' @ message e) 422)
                | Inr (startRow, startCol) \<Rightarrow>
                    Inr (foldl (range_row startCol startRow (r_style rangeDef)) ws
                           (enumerate 0 rows)))
           | _ \<Rightarrow> Inr ws))"

text \<open>
  The cell writes that the specification lists for a range, in row-major order: the value
  \<open>data[i][j]\<close> at the address resolved from the anchor column, the row
  \<open>anchorRow + i\<close> and the offset \<open>j\<close>.
\<close>

definition row_writes ::
  "string \<Rightarrow> int \<Rightarrow> jvalue \<Rightarrow> nat \<times> jvalue \<Rightarrow> (string \<times> (cell \<Rightarrow> cell \<times> string list)) list" where
  "row_writes startCol startRow style ir =
     (case snd ir of
        JArr rowData \<Rightarrow>
          map (\<lambda>jv. (getCellAddress startCol (startRow + int (fst ir)) (int (fst jv)),
                      range_cell style (snd jv)))
            (enumerate 0 rowData)
      | _ \<Rightarrow> [])"

definition range_writes ::
  "string \<Rightarrow> int \<Rightarrow> jvalue \<Rightarrow> jvalue list \<Rightarrow> (string \<times> (cell \<Rightarrow> cell \<times> string list)) list" where
  "range_writes startCol startRow style rows =
     concat (map (row_writes startCol startRow style) (enumerate 0 rows))"

definition row_width :: "jvalue \<Rightarrow> nat" where
  "row_width r = (case r of JArr vs \<Rightarrow> length vs | _ \<Rightarrow> 0)"

subsection \<open>Table write\<close>

record tableDef =
  t_name :: "string option"
  t_range :: "string option"
  t_data :: jvalue
  t_style :: jvalue

text \<open>The style that \<^verbatim>\<open>processTable\<close> passes for a header when the table gives none.\<close>

definition default_header_style :: jvalue where
  "default_header_style =
     JObj
       [(''font'', JObj [(''bold'', JBool True), (''color'', JObj [(''argb'', JStr ''FFFFFFFF'')])]),
        (''fill'', JObj [(''type'', JStr ''pattern''), (''pattern'', JStr ''solid''),
                         (''fgColor'', JObj [(''argb'', JStr ''FF366092'')])]),
        (''alignment'', JObj [(''horizontal'', JStr ''center''), (''vertical'', JStr ''middle'')])]"

text \<open>
  A header cell:
  \<^verbatim>\<open>
  cell.value = header;
  if (tableDef.style?.header) { this.applyCellStyle(cell, tableDef.style.header); }
  else { this.applyCellStyle(cell, { font: ..., fill: ..., alignment: ... }); }
  \<close>
\<close>

definition header_cell :: "jvalue \<Rightarrow> string \<Rightarrow> cell \<Rightarrow> cell \<times> string list" where
  "header_cell tstyle h c =
     (if truthy (js_get tstyle ''header'')
      then styled (js_get tstyle ''header'') (set_value (JStr h) c, [])
      else styled default_header_style (set_value (JStr h) c, []))"

text \<open>
  A body cell:
  \<^verbatim>\<open>
  cell.value = rowData[header];
  if (tableDef.style?.rows) { this.applyCellStyle(cell, tableDef.style.rows); }
  if (rowIndex % 2 === 1 && tableDef.style?.alternateRows) {
    this.applyCellStyle(cell, tableDef.style.alternateRows);
  }
  \<close>
\<close>

definition body_cell :: "jvalue \<Rightarrow> nat \<Rightarrow> jvalue \<Rightarrow> cell \<Rightarrow> cell \<times> string list" where
  "body_cell tstyle rowIndex v c =
     (let r1 = (set_value v c, []);
          r2 = (if truthy (js_get tstyle ''rows'') then styled (js_get tstyle ''rows'') r1 else r1)
      in if rowIndex mod 2 = 1 \<and> truthy (js_get tstyle ''alternateRows'')
         then styled (js_get tstyle ''alternateRows'') r2
         else r2)"

text \<open>A loop whose body can throw: the first exception ends it.\<close>

fun fold_err :: "('s \<Rightarrow> 'a \<Rightarrow> 'e + 's) \<Rightarrow> 's \<Rightarrow> 'a list \<Rightarrow> 'e + 's" where
  "fold_err f s [] = Inr s"
| "fold_err f s (x # xs) = (case f s x of Inl e \<Rightarrow> Inl e | Inr s' \<Rightarrow> fold_err f s' xs)"

text \<open>One data row of a table: reading \<^verbatim>\<open>rowData[header]\<close> throws on a row that is
  \<^verbatim>\<open>null\<close>.\<close>

definition table_row ::
  "string \<Rightarrow> int \<Rightarrow> jvalue \<Rightarrow> string list \<Rightarrow> worksheet \<Rightarrow> nat \<times> jvalue \<Rightarrow> js_error + worksheet" where
  "table_row startColLetter startRow tstyle headers ws ir =
     fold_err
       (\<lambda>w jh. case js_get_checked (snd ir) (snd jh) of
                  Inl e \<Rightarrow> Inl e
                | Inr v \<Rightarrow>
                    Inr (update_cell w
                      (getCellAddress startColLetter (startRow + int (fst ir) + 1) (int (fst jh)),
                       body_cell tstyle (fst ir) v)))
       ws (enumerate 0 headers)"

text \<open>
  The values that \<^verbatim>\<open>addTable\<close> stores in the sheet (\<^verbatim>\<open>Table.store\<close>), in row-major order:
  \<^verbatim>\<open>
  const r = worksheet.getRow(row + count++);
  data.forEach((value, j) => { const cell = r.getCell(col + j); cell.value = value; ... });
  \<close>
  for the names of the columns and then for every row of values, from the top left corner
  of the table. The columns of the service have no style.
\<close>

definition store_writes ::
  "nat \<Rightarrow> nat \<Rightarrow> jvalue list list \<Rightarrow> (string \<times> (cell \<Rightarrow> cell \<times> string list)) list" where
  "store_writes row col vss =
     concat (map (\<lambda>ivs. map (\<lambda>jv. (encodeAddress (int (row + fst ivs)) (col + fst jv),
                                     (\<lambda>c. (set_value (snd jv) c, []))))
                            (enumerate 0 (snd ivs)))
                 (enumerate 0 vss))"

text \<open>
  \<^verbatim>\<open>worksheet.addTable(model)\<close> with \<^verbatim>\<open>headerRow: true\<close> and no totals row: the table is
  validated (\<^verbatim>\<open>Table.validate\<close>), stored in the cells and registered under its name.
  \<^verbatim>\<open>
  table.tl = colCache.decodeAddress(table.ref);
  const {row, col} = table.tl;
  assert(row > 0, 'Table must be on valid row');
  assert(col > 0, 'Table must be on valid col');
  table.autoFilterRef = colCache.encode(row, col, row + filterHeight - 1, col + width - 1);
  table.tableRef = colCache.encode(row, col, row + tableHeight - 1, col + width - 1);
  table.columns.forEach((column, i) => {
    assert(column.name, `Column ${i} must have a name`); ...
  });
  \<close>
  \<^verbatim>\<open>encode\<close> throws for a column outside 1 to 16384. The row and the column that are
  \<^verbatim>\<open>undefined\<close> fail the assertions as 0 does.
\<close>

definition addTable ::
  "string \<Rightarrow> string \<Rightarrow> string list \<Rightarrow> jvalue list list \<Rightarrow> worksheet \<Rightarrow> js_error + worksheet" where
  "addTable name ref columns rows ws =
     (case decodeAddress ref of
        Inl e \<Rightarrow> Inl e
      | Inr (c, r) \<Rightarrow>
          (let row = (case r of None \<Rightarrow> 0 | Some (s, n) \<Rightarrow> n);
               col = (case c of None \<Rightarrow> 0 | Some (s, n) \<Rightarrow> n);
               last = col + length columns - 1
           in if row = 0 then Inl (Error ''Table must be on valid row'')
              else if col = 0 then Inl (Error ''Table must be on valid col'')
              else if last < 1 \<or> 16384 < last
              then Inl (Error (number_toString (int last)
                         @ '' is out of bounds. Excel supports columns from 1 to 16384''))
              else if list_ex (\<lambda>n. n = []) columns
              then Inl (Error (''Column ''
                         @ number_toString (int (length (takeWhile (\<lambda>n. n \<noteq> []) columns)))
                         @ '' must have a name''))
              else
                (let ws' = foldl update_cell ws (store_writes row col (map JStr columns # rows))
                 in Inr (ws'\<lparr>tables := filter (\<lambda>t. reg_name t \<noteq> name) (tables ws')
                          @ [\<lparr>reg_name = name, reg_ref = ref, reg_columns = columns,
                              reg_rows = rows\<rparr>]\<rparr>))))"

text \<open>
  The registration of a named table:
  \<^verbatim>\<open>
  const endRow = startRow + tableDef.data.length;
  const endCol = this.getCellAddress(startColLetter, 1, headers.length - 1).match(/[A-Z]+/)[0];
  const tableRange = `${startCell}:${endCol}${endRow}`;
  worksheet.addTable({ name: tableDef.name, ref: tableRange, headerRow: true,
    columns: headers.map(header => ({ name: header })),
    rows: tableDef.data.map(row => headers.map(header => row[header])) });
  \<close>
\<close>

definition register_table ::
  "string \<Rightarrow> string \<Rightarrow> string \<Rightarrow> int \<Rightarrow> string list \<Rightarrow> jvalue list \<Rightarrow> worksheet
     \<Rightarrow> js_error + worksheet" where
  "register_table name startCell startColLetter startRow headers rows ws =
     (case match_run is_upper (getCellAddress startColLetter 1 (int (length headers) - 1)) of
        None \<Rightarrow> Inl (TypeError ''Cannot read properties of null'')
      | Some endCol \<Rightarrow>
          (case fold_err
                  (\<lambda>acc row.
                     case fold_err
                            (\<lambda>vs h. case js_get_checked row h of
                                       Inl e \<Rightarrow> Inl e | Inr v \<Rightarrow> Inr (vs @ [v]))
                            [] headers of
                       Inl e \<Rightarrow> Inl e
                     | Inr vs \<Rightarrow> Inr (acc @ [vs]))
                  [] rows of
             Inl e \<Rightarrow> Inl e
           | Inr rs \<Rightarrow>
               addTable name
                 (startCell @ '':'' @ endCol @ number_toString (startRow + int (length rows)))
                 headers rs ws))"

text \<open>\<^verbatim>\<open>tableDef.range ? tableDef.range.split(':')[0] : 'A1'\<close>.\<close>

definition table_startCell :: "tableDef \<Rightarrow> string" where
  "table_startCell tableDef =
     (case t_range tableDef of
        None \<Rightarrow> ''A1''
      | Some r \<Rightarrow> if r = [] then ''A1'' else split_first r)"

text \<open>
  The cell writes of a block of rows under an anchor, in row-major order: the function
  \<open>fss ! i ! j\<close> on the cell at the address resolved from the anchor column, the row
  \<open>startRow + i\<close> and the offset \<open>j\<close>.
\<close>

definition grid_writes ::
  "string \<Rightarrow> int \<Rightarrow> (cell \<Rightarrow> cell \<times> string list) list list
     \<Rightarrow> (string \<times> (cell \<Rightarrow> cell \<times> string list)) list" where
  "grid_writes startCol startRow fss =
     concat (map (\<lambda>ifs. map (\<lambda>jf. (getCellAddress startCol (startRow + int (fst ifs)) (int (fst jf)),
                                       snd jf))
                            (enumerate 0 (snd ifs)))
                 (enumerate 0 fss))"

text \<open>
  The cells of a table as the specification lists them: the header row, one cell per
  header, then one row per data row with the value \<open>row[header]\<close> under each header.
\<close>

definition table_cells ::
  "jvalue \<Rightarrow> string list \<Rightarrow> jvalue list \<Rightarrow> (cell \<Rightarrow> cell \<times> string list) list list" where
  "table_cells tstyle headers rows =
     map (header_cell tstyle) headers
     # map (\<lambda>ir. map (\<lambda>h. body_cell tstyle (fst ir) (js_get (snd ir) h)) headers)
           (enumerate 0 rows)"

text \<open>The body of the \<^verbatim>\<open>try\<close> block of \<^verbatim>\<open>processTable\<close>.\<close>

definition table_body :: "worksheet \<Rightarrow> tableDef \<Rightarrow> js_error + worksheet" where
  "table_body ws tableDef =
     (case t_data tableDef of
        JArr (row0 # rest) \<Rightarrow>
          (let startCell = table_startCell tableDef
           in case Object_keys row0 of
                Inl e \<Rightarrow> Inl e
              | Inr headers \<Rightarrow>
                  (case parse_anchor startCell of
                     Inl e \<Rightarrow> Inl e
                   | Inr (startRow, startColLetter) \<Rightarrow>
                       (let ws1 = foldl (\<lambda>w jh. update_cell w
                                     (getCellAddress startColLetter startRow (int (fst jh)),
                                      header_cell (t_style tableDef) (snd jh)))
                                   ws (enumerate 0 headers)
                        in case fold_err
                                  (table_row startColLetter startRow (t_style tableDef) headers)
                                  ws1 (enumerate 0 (row0 # rest)) of
                             Inl e \<Rightarrow> Inl e
                           | Inr ws2 \<Rightarrow>
                               (case t_name tableDef of
                                  None \<Rightarrow> Inr ws2
                                | Some name \<Rightarrow>
                                    if name = [] then Inr ws2
                                    else register_table name startCell startColLetter startRow
                                           headers (row0 # rest) ws2))))
      | _ \<Rightarrow> Inl (Error ''Table data is required and must be a non-empty array''))"

text \<open>
  \<^verbatim>\<open>
  static async processTable(worksheet, tableDef) {
    try { ... } catch (error) {
      throw new APIError(`Table processing failed: ${error.message}`, 422);
    }
  }
  \<close>
\<close>

definition processTable :: "worksheet \<Rightarrow> tableDef \<Rightarrow> api_error + worksheet" where
  "processTable ws tableDef =
     (case table_body ws tableDef of
        Inl e \<Rightarrow> Inl (APIError (''Table processing failed: '' @ message e) 422)
      | Inr ws' \<Rightarrow> Inr ws')"

section \<open>Sheet formatting: automatic column width\<close>



text \<open>
  The sheet as a grid: its rows in order, each the list of the values of its cells, column
  by column. A row may be shorter than the sheet is wide; the cells it lacks are empty.
\<close>

type_synonym grid = "jvalue list list"






section \<open>Template filler\<close>

subsection \<open>Placeholders\<close>

text \<open>
  What follows the opening braces of a placeholder: \<^verbatim>\<open>(\w+)\}\}\<close>. The longest run of word
  characters is the key, since a closing brace is no word character; the result is the
  key and the text after the placeholder.
\<close>

definition match_key :: "string \<Rightarrow> (string \<times> string) option" where
  "match_key s =
     (let key = takeWhile is_word s; rest = dropWhile is_word s
      in if key \<noteq> [] \<and> take 2 rest = ''}}'' then Some (key, drop 2 rest) else None)"

text \<open>A match of \<^verbatim>\<open>\{\{(\w+)\}\}\<close> at the start of a string.\<close>

fun match_placeholder :: "string \<Rightarrow> (string \<times> string) option" where
  "match_placeholder (a # b # s) =
     (if a = CHR ''{'' \<and> b = CHR ''{'' then match_key s else None)"
| "match_placeholder s = None"

text \<open>A match of \<^verbatim>\<open>\{\{#(\w+)\}\}\<close> at the start of a string.\<close>

fun match_marker :: "string \<Rightarrow> (string \<times> string) option" where
  "match_marker (a # b # c # s) =
     (if a = CHR ''{'' \<and> b = CHR ''{'' \<and> c = CHR ''#'' then match_key s else None)"
| "match_marker s = None"

lemma match_key_length: "match_key s = Some (key, rest) \<Longrightarrow> length rest \<le> length s"
proof -
  assume "match_key s = Some (key, rest)"
  then have "rest = drop 2 (dropWhile is_word s)"
    by (auto simp: match_key_def Let_def split: if_splits)
  then show ?thesis
    using length_dropWhile_le [of is_word s] by simp
qed

lemma match_placeholder_length:
  "match_placeholder s = Some (key, rest) \<Longrightarrow> length rest < length s"
  by (cases s rule: match_placeholder.cases)
     (auto split: if_splits dest!: match_key_length)

text \<open>
  \<^verbatim>\<open>s.replace(/\{\{(\w+)\}\}/g, (match, key) => o[key] !== undefined ? o[key] : match)\<close>:
  the matches are found from left to right and do not overlap; a match whose key has a
  value is replaced by the string form of the value, any other match stays.
\<close>

function replace_placeholders :: "(string \<Rightarrow> jvalue) \<Rightarrow> string \<Rightarrow> string" where
  "replace_placeholders lookup [] = []"
| "replace_placeholders lookup (c # cs) =
     (case match_placeholder (c # cs) of
        Some (key, rest) \<Rightarrow>
          (if lookup key \<noteq> JUndefined then js_toString (lookup key)
           else ''{{'' @ key @ ''}}'')
          @ replace_placeholders lookup rest
      | None \<Rightarrow> c # replace_placeholders lookup cs)"
  by pat_completeness auto
termination
  by (relation "measure (\<lambda>(lookup, s). length s)")
     (auto dest: match_placeholder_length)

text \<open>Whether the pattern of a placeholder matches anywhere: whether the callback runs.\<close>

fun has_placeholder :: "string \<Rightarrow> bool" where
  "has_placeholder [] = False"
| "has_placeholder (c # cs) = (match_placeholder (c # cs) \<noteq> None \<or> has_placeholder cs)"

text \<open>
  The same replacement from the fields of an array element. The callback reads
  \<^verbatim>\<open>item[itemKey]\<close>, which throws when the element is \<^verbatim>\<open>null\<close>.
\<close>

definition replace_item :: "jvalue \<Rightarrow> string \<Rightarrow> js_error + string" where
  "replace_item item s =
     (if (item = JNull \<or> item = JUndefined) \<and> has_placeholder s
      then Inl (TypeError ''Cannot read properties of null'')
      else Inr (replace_placeholders (js_get item) s))"

text \<open>\<^verbatim>\<open>/\{\{#(\w+)\}\}/g.exec(s)\<close> on a fresh expression: the key of the first marker.\<close>

fun find_marker :: "string \<Rightarrow> string option" where
  "find_marker [] = None"
| "find_marker (c # cs) =
     (case match_marker (c # cs) of
        Some (key, rest) \<Rightarrow> Some key
      | None \<Rightarrow> find_marker cs)"

text \<open>\<^verbatim>\<open>s.replace(/\{\{#\w+\}\}/, '')\<close>: the first marker is removed.\<close>

fun strip_marker :: "string \<Rightarrow> string" where
  "strip_marker [] = []"
| "strip_marker (c # cs) =
     (case match_marker (c # cs) of
        Some (key, rest) \<Rightarrow> rest
      | None \<Rightarrow> c # strip_marker cs)"

subsection \<open>Filling a worksheet\<close>

text \<open>
  The template is a grid. \<^verbatim>\<open>eachRow\<close> and \<^verbatim>\<open>eachCell\<close> run over the rows and cells
  there are when the loop starts, read each one when they reach it, and pass over a row
  without values and a cell without value.
\<close>

definition is_blank :: "jvalue \<Rightarrow> bool" where
  "is_blank v = (v = JNull \<or> v = JUndefined)"

definition hasValues :: "jvalue list \<Rightarrow> bool" where
  "hasValues row = list_ex (\<lambda>v. \<not> is_blank v) row"

text \<open>\<^verbatim>\<open>cell.value = v\<close> on the cell in column \<open>c\<close> of row \<open>r\<close>, both counted from 0.\<close>

definition set_cell :: "grid \<Rightarrow> nat \<Rightarrow> nat \<Rightarrow> jvalue \<Rightarrow> grid" where
  "set_cell g r c v = g[r := (g ! r)[c := v]]"

text \<open>
  \<^verbatim>\<open>worksheet.insertRow(pos, [])\<close>, rows counted from 1: the rows from \<open>pos\<close> on move
  down by one and the row at \<open>pos\<close> is a new row with the values given, that is none.
\<close>

definition insertRow :: "grid \<Rightarrow> nat \<Rightarrow> grid" where
  "insertRow g pos =
     take (pos - 1) (g @ replicate (pos - 1 - length g) []) @ [[]] @ drop (pos - 1) g"

text \<open>A loop over a state whose body can throw: the exception ends the loop and leaves
  the state as it is.\<close>

fun fold_try :: "('s \<Rightarrow> 'a \<Rightarrow> 's \<times> js_error option) \<Rightarrow> 's \<Rightarrow> 'a list \<Rightarrow> 's \<times> js_error option" where
  "fold_try f s [] = (s, None)"
| "fold_try f s (x # xs) =
     (case f s x of
        (s', None) \<Rightarrow> fold_try f s' xs
      | (s', Some e) \<Rightarrow> (s', Some e))"

text \<open>
  One cell of a row of an array element:
  \<^verbatim>\<open>
  if (arrayCell.value && typeof arrayCell.value === 'string') {
    let arrayValue = arrayCell.value.replace(/\{\{#\w+\}\}/, '');
    arrayValue = arrayValue.replace(itemRegex, (itemMatch, itemKey) => {
      return item[itemKey] !== undefined ? item[itemKey] : itemMatch;
    });
    arrayCell.value = arrayValue;
  }
  \<close>
\<close>

definition array_cell :: "jvalue \<Rightarrow> nat \<Rightarrow> grid \<Rightarrow> nat \<Rightarrow> grid \<times> js_error option" where
  "array_cell item r g cc =
     (case g ! r ! cc of
        JStr s \<Rightarrow>
          if s = [] then (g, None)
          else (case replace_item item (strip_marker s) of
                  Inl e \<Rightarrow> (g, Some e)
                | Inr s' \<Rightarrow> (set_cell g r cc (JStr s'), None))
      | _ \<Rightarrow> (g, None))"

text \<open>
  One element of the array, for the template row \<open>k\<close> (counted from 0, so \<^verbatim>\<open>startRow\<close> is
  \<open>k + 1\<close>):
  \<^verbatim>\<open>
  if (index > 0) { worksheet.insertRow(startRow + index, []); }
  const currentRow = worksheet.getRow(startRow + index);
  currentRow.eachCell((arrayCell, arrayCellNumber) => { ... });
  \<close>
\<close>

definition array_item :: "nat \<Rightarrow> grid \<Rightarrow> nat \<times> jvalue \<Rightarrow> grid \<times> js_error option" where
  "array_item k g ii =
     (let g1 = (if fst ii > 0 then insertRow g (k + 1 + fst ii) else g);
          r = k + fst ii
      in if r < length g1
         then fold_try (array_cell (snd ii) r) g1 [0..<length (g1 ! r)]
         else (g1, None))"

text \<open>
  One cell of the template, in column \<open>c\<close> of row \<open>k\<close>:
  \<^verbatim>\<open>
  if (cell.value && typeof cell.value === 'string') {
    let cellValue = cell.value;
    cellValue = cellValue.replace(singleValueRegex, (match, key) => {
      return data[key] !== undefined ? data[key] : match;
    });
    const arrayMatch = arrayRegex.exec(cellValue);
    if (arrayMatch && data[arrayMatch[1]] && Array.isArray(data[arrayMatch[1]])) {
      const arrayData = data[arrayMatch[1]];
      const startRow = rowNumber;
      arrayData.forEach((item, index) => { ... });
    } else {
      cell.value = cellValue;
    }
  }
  \<close>
  The data is an object (the request is validated so); it is given by its properties.
\<close>

definition fill_cell :: "(string \<times> jvalue) list \<Rightarrow> nat \<Rightarrow> grid \<Rightarrow> nat \<Rightarrow> grid \<times> js_error option" where
  "fill_cell data k g c =
     (case g ! k ! c of
        JStr s \<Rightarrow>
          if s = [] then (g, None)
          else
            (let cellValue = replace_placeholders (js_get (JObj data)) s
             in case find_marker cellValue of
                  Some key \<Rightarrow>
                    (case js_get (JObj data) key of
                       JArr arrayData \<Rightarrow> fold_try (array_item k) g (enumerate 0 arrayData)
                     | _ \<Rightarrow> (set_cell g k c (JStr cellValue), None))
                | None \<Rightarrow> (set_cell g k c (JStr cellValue), None))
      | _ \<Rightarrow> (g, None))"

text \<open>One row of the template: \<^verbatim>\<open>row.eachCell((cell, colNumber) => { ... })\<close>.\<close>

definition fill_row :: "(string \<times> jvalue) list \<Rightarrow> grid \<Rightarrow> nat \<Rightarrow> grid \<times> js_error option" where
  "fill_row data g k =
     (if k < length g \<and> hasValues (g ! k)
      then fold_try (fill_cell data k) g [0..<length (g ! k)]
      else (g, None))"

text \<open>
  \<^verbatim>\<open>
  static fillWorksheetTemplate(worksheet, data) {
    try {
      worksheet.eachRow((row, rowNumber) => { row.eachCell(...) });
    } catch (error) {
      logger.warn(`Worksheet template filling failed: ${error.message}`);
    }
  }
  \<close>
  The result is the worksheet as the loop has left it and the warnings logged.
\<close>

definition fillWorksheetTemplate :: "grid \<Rightarrow> (string \<times> jvalue) list \<Rightarrow> grid \<times> string list" where
  "fillWorksheetTemplate g data =
     (case fold_try (fill_row data) g [0..<length g] of
        (g', None) \<Rightarrow> (g', [])
      | (g', Some e) \<Rightarrow> (g', [''Worksheet template filling failed: '' @ message e]))"



chapter \<open>Properties\<close>

section \<open>Numbers and strings\<close>

lemma of_char_digit: "d < 10 \<Longrightarrow> (of_char (char_of (48 + d :: nat)) :: nat) = 48 + d"
  by (simp add: of_char_of)

lemma is_digit_char_of: "d < 10 \<Longrightarrow> is_digit (char_of (48 + d :: nat))"
  by (simp add: is_digit_def of_char_of)

lemma parse_digits_snoc:
  "parse_digits (s @ [c]) = 10 * parse_digits s + ((of_char c :: nat) - 48)"
  by (simp add: parse_digits_def)

lemma parse_digits_of: "parse_digits (digits_of n) = n"
proof (induction n rule: digits_of.induct)
  case (1 n)
  show ?case
  proof (cases "n < 10")
    case True
    then show ?thesis
      by (subst digits_of.simps) (simp add: parse_digits_def of_char_of)
  next
    case False
    have m: "n mod 10 < 10" by simp
    have "parse_digits (digits_of n) =
        10 * parse_digits (digits_of (n div 10)) + ((of_char (char_of (48 + n mod 10)) :: nat) - 48)"
      using False by (subst digits_of.simps) (simp add: parse_digits_snoc)
    also have "\<dots> = 10 * (n div 10) + n mod 10"
      using "1.IH" [OF False] of_char_digit [OF m] by simp
    finally show ?thesis by simp
  qed
qed

lemma digits_of_all_digits: "list_all is_digit (digits_of n)"
proof (induction n rule: digits_of.induct)
  case (1 n)
  show ?case
  proof (cases "n < 10")
    case True
    then show ?thesis
      by (subst digits_of.simps) (simp add: is_digit_char_of)
  next
    case False
    have m: "n mod 10 < 10" by simp
    show ?thesis
      using False "1.IH" [OF False] is_digit_char_of [OF m]
      by (subst digits_of.simps) simp
  qed
qed

lemma digits_of_not_Nil: "digits_of n \<noteq> []"
  by (subst digits_of.simps) simp

lemma digits_of_inj: "digits_of m = digits_of n \<Longrightarrow> m = n"
  by (metis parse_digits_of)

lemma number_toString_inj_nonneg:
  "0 \<le> m \<Longrightarrow> 0 \<le> n \<Longrightarrow> number_toString m = number_toString n \<Longrightarrow> m = n"
  by (auto simp: number_toString_def dest!: digits_of_inj)

lemma parse_number_toString: "0 \<le> n \<Longrightarrow> int (parse_digits (number_toString n)) = n"
  by (simp add: number_toString_def parse_digits_of)

section \<open>Address resolver\<close>

lemma js_rem_nonneg: "0 \<le> a \<Longrightarrow> js_rem a 26 = a mod 26"
  by (cases "a = 0") (simp_all add: js_rem_def)

lemma of_char_int_nat: "(of_char c :: int) = int (of_char c)"
  by (simp add: of_nat_of_char)

lemma is_upper_int: "is_upper c = (65 \<le> (of_char c :: int) \<and> (of_char c :: int) \<le> 90)"
  unfolding is_upper_def of_char_int_nat by linarith

lemma column_index_upper: "is_upper c \<Longrightarrow> 0 \<le> column_index c \<and> column_index c \<le> 25"
  by (simp add: is_upper_int column_index_def)

lemma getCellAddress_nonneg:
  assumes "is_upper c" and "0 \<le> off"
  shows "getCellAddress (c # cs) row off =
     char_of (65 + (column_index c + off) mod 26) # number_toString row"
proof -
  have "0 \<le> column_index c + off"
    using column_index_upper [OF assms(1)] assms(2) by simp
  then show ?thesis
    by (simp add: getCellAddress_def column_index_def js_rem_nonneg)
qed

lemma column_letter_upper:
  assumes "0 \<le> k" and "k < 26"
  shows "is_upper (char_of (65 + k :: int))" and "column_index (char_of (65 + k :: int)) = k"
  using assms by (simp_all add: is_upper_int column_index_def of_char_of)

text \<open>
  C1. For an anchor that is one capital letter, any row number and any offset that does
  not make the column index negative, the address is one letter followed by the decimal
  form of the row. The letter is a capital and decodes to the anchor index plus the
  offset, modulo 26: within 0..25 that is the sum itself, and from 26 on the column wraps
  round to A instead of carrying into a second letter, so the address has exactly one
  column letter whatever the offset. The row part is the row unchanged: for the
  non-negative rows a sheet has it consists of digits and reads back as the row given.
\<close>

theorem getCellAddress_roundtrip:
  assumes "is_upper c" and "0 \<le> column_index c + off"
  shows "\<exists>l. getCellAddress [c] row off = l # number_toString row
           \<and> is_upper l
           \<and> column_index l = (column_index c + off) mod 26
           \<and> (column_index c + off \<le> 25 \<longrightarrow> column_index l = column_index c + off)
           \<and> (26 \<le> column_index c + off \<longrightarrow> column_index l < column_index c + off)
           \<and> (0 \<le> row \<longrightarrow>
                 list_all is_digit (number_toString row)
                 \<and> int (parse_digits (number_toString row)) = row
                 \<and> length (getCellAddress [c] row off) = 1 + length (number_toString row)
                 \<and> takeWhile is_upper (getCellAddress [c] row off) = [l])"
proof -
  let ?k = "(column_index c + off) mod 26"
  let ?l = "char_of (65 + ?k) :: char"
  have k: "0 \<le> ?k" "?k < 26" by simp_all
  have "js_rem (column_index c + off) 26 = ?k"
    using assms(2) by (rule js_rem_nonneg)
  then have a: "getCellAddress [c] row off = ?l # number_toString row"
    by (simp add: getCellAddress_def column_index_def)
  have l: "is_upper ?l" "column_index ?l = ?k"
    using column_letter_upper [OF k] by simp_all
  have small: "column_index c + off \<le> 25 \<longrightarrow> column_index ?l = column_index c + off"
  proof
    assume "column_index c + off \<le> 25"
    with assms(2) have "?k = column_index c + off" by simp
    with l(2) show "column_index ?l = column_index c + off" by (simp only:)
  qed
  have big: "26 \<le> column_index c + off \<longrightarrow> column_index ?l < column_index c + off"
    using l(2) k(2) by linarith
  have row: "0 \<le> row \<longrightarrow>
      list_all is_digit (number_toString row) \<and> int (parse_digits (number_toString row)) = row"
    using digits_of_all_digits [of "nat row"]
    by (simp add: parse_number_toString) (simp add: number_toString_def)
  have "0 \<le> row \<longrightarrow> takeWhile is_upper (number_toString row) = []"
  proof
    assume "0 \<le> row"
    with row have d: "list_all is_digit (number_toString row)" by simp
    have "number_toString row \<noteq> []"
      using \<open>0 \<le> row\<close> by (simp add: number_toString_def digits_of_not_Nil)
    then obtain x xs where x: "number_toString row = x # xs"
      by (cases "number_toString row") simp_all
    with d have "is_digit x" by simp
    then have "\<not> is_upper x" by (simp add: is_digit_def is_upper_def)
    with x show "takeWhile is_upper (number_toString row) = []" by simp
  qed
  then have one: "0 \<le> row \<longrightarrow>
      length (getCellAddress [c] row off) = 1 + length (number_toString row)
      \<and> takeWhile is_upper (getCellAddress [c] row off) = [?l]"
    using a l(1) by simp
  show ?thesis
    using a l small big row one by blast
qed

theorem getCellAddress_roundtrip_witness:
  "is_upper CHR ''Z'' \<and> 0 \<le> column_index CHR ''Z'' + 1
     \<and> getCellAddress ''Z'' 3 1 = ''A3''
     \<and> (\<exists>l. getCellAddress ''Z'' 3 1 = l # number_toString 3
           \<and> is_upper l
           \<and> column_index l = (column_index CHR ''Z'' + 1) mod 26
           \<and> column_index l = 0
           \<and> takeWhile is_upper (getCellAddress ''Z'' 3 1) = [l])
     \<and> getCellAddress ''C'' 7 4 = ''G7''
     \<and> (\<exists>l. getCellAddress ''C'' 7 4 = l # number_toString 7
           \<and> column_index l = column_index CHR ''C'' + 4)"
proof -
  have u: "is_upper CHR ''Z''" by (simp add: is_upper_def)
  have lo: "0 \<le> column_index CHR ''Z'' + 1" by (simp add: column_index_def)
  have m: "(column_index CHR ''Z'' + 1) mod 26 = 0" by (simp add: column_index_def)
  have z: "getCellAddress ''Z'' 3 1 = ''A3''"
    by code_simp
  have u': "is_upper CHR ''C''" by (simp add: is_upper_def)
  have lo': "0 \<le> column_index CHR ''C'' + 4" by (simp add: column_index_def)
  have hi': "column_index CHR ''C'' + 4 \<le> 25" by (simp add: column_index_def)
  have c: "getCellAddress ''C'' 7 4 = ''G7''"
    by code_simp
  from getCellAddress_roundtrip [OF u lo, of 3]
  obtain l where l: "getCellAddress ''Z'' 3 1 = l # number_toString 3" "is_upper l"
      "column_index l = (column_index CHR ''Z'' + 1) mod 26"
      "takeWhile is_upper (getCellAddress ''Z'' 3 1) = [l]"
    by auto
  from getCellAddress_roundtrip [OF u' lo', of 7]
  obtain l' where l': "getCellAddress ''C'' 7 4 = l' # number_toString 7"
      "column_index l' = column_index CHR ''C'' + 4"
    using hi' by auto
  show ?thesis
    using u lo z c l l' m by auto
qed

text \<open>
  C10. The resolver does not wrap a negative column index back into A..Z: the remainder
  of a negative number is negative. For the anchor A, row 5 and offset -1 it returns the
  string \<open>@5\<close>, whose first character is not a capital letter, so the result does not
  have the form of an address.
\<close>

theorem getCellAddress_negative_offset:
  "column_index CHR ''A'' + (- 1) < 0
     \<and> js_rem (column_index CHR ''A'' + (- 1)) 26 = - 1
     \<and> getCellAddress ''A'' 5 (- 1) = ''@5''
     \<and> \<not> is_upper (hd (getCellAddress ''A'' 5 (- 1)))
     \<and> \<not> address_pattern (getCellAddress ''A'' 5 (- 1))"
proof -
  have a: "getCellAddress ''A'' 5 (- 1) = ''@5''"
    by code_simp
  have "\<not> is_upper CHR ''@''"
    by (simp add: is_upper_def)
  then show ?thesis
    using a by (simp add: address_pattern_def column_index_def js_rem_def)
qed

section \<open>Style normaliser\<close>

text \<open>The keys that the style normaliser and the writers read are not inherited by an
  object.\<close>

lemma inherited_style_keys:
  "proto_lookup ''Object'' p [] ''font'' = JUndefined"
  "proto_lookup ''Object'' p [] ''fill'' = JUndefined"
  "proto_lookup ''Object'' p [] ''backgroundColor'' = JUndefined"
  "proto_lookup ''Object'' p [] ''alignment'' = JUndefined"
  "proto_lookup ''Object'' p [] ''border'' = JUndefined"
  "proto_lookup ''Object'' p [] ''numFmt'' = JUndefined"
  "proto_lookup ''Object'' p [] ''name'' = JUndefined"
  "proto_lookup ''Object'' p [] ''size'' = JUndefined"
  "proto_lookup ''Object'' p [] ''bold'' = JUndefined"
  "proto_lookup ''Object'' p [] ''italic'' = JUndefined"
  "proto_lookup ''Object'' p [] ''underline'' = JUndefined"
  "proto_lookup ''Object'' p [] ''color'' = JUndefined"
  "proto_lookup ''Object'' p [] ''fgColor'' = JUndefined"
  "proto_lookup ''Object'' p [] ''horizontal'' = JUndefined"
  "proto_lookup ''Object'' p [] ''vertical'' = JUndefined"
  "proto_lookup ''Object'' p [] ''wrapText'' = JUndefined"
  "proto_lookup ''Object'' p [] ''indent'' = JUndefined"
  "proto_lookup ''Object'' p [] ''top'' = JUndefined"
  "proto_lookup ''Object'' p [] ''left'' = JUndefined"
  "proto_lookup ''Object'' p [] ''bottom'' = JUndefined"
  "proto_lookup ''Object'' p [] ''right'' = JUndefined"
  "proto_lookup ''Object'' p [] ''header'' = JUndefined"
  "proto_lookup ''Object'' p [] ''rows'' = JUndefined"
  "proto_lookup ''Object'' p [] ''alternateRows'' = JUndefined"
  by (simp_all add: proto_lookup_def object_methods_def)

text \<open>
  A sub-style that is no object has the members of its own prototype. An array has the
  method \<^verbatim>\<open>fill\<close> of the arrays under the key \<^verbatim>\<open>fill\<close>, so as a style it asks for a fill
  without a colour, which is black; a string has the method \<^verbatim>\<open>bold\<close> of the strings, so
  as a font it is bold.
\<close>

lemma applyCellStyle_array:
  "applyCellStyle empty_cell (JArr []) =
     (empty_cell\<lparr>fill := JObj [(''type'', JStr ''pattern''), (''pattern'', JStr ''solid''),
                               (''fgColor'', JObj [(''argb'', JStr ''FF000000'')])]\<rparr>, [])"
  by (simp add: applyCellStyle_def style_body_def style_tail_def fill_literal_def
      normalizeColor_def js_or_def proto_lookup_def array_methods_def object_methods_def
      native_function_def is_array_index_def empty_cell_def)

lemma font_literal_string:
  "font_literal (JStr ''Arial'') =
     Inr (JObj [(''name'', JStr ''Calibri''), (''size'', JNum 11),
                (''bold'', JNative ''function bold() { [native code] }''),
                (''italic'', JBool False), (''underline'', JBool False),
                (''color'', JUndefined)])"
  by (simp add: font_literal_def js_or_def proto_lookup_def string_methods_def
      object_methods_def native_function_def is_array_index_def is_digit_def)

lemma js_get_inherited_scalars:
  "js_get (JNum 5) ''toFixed'' = JNative ''function toFixed() { [native code] }''"
  "js_get (JBool True) ''constructor'' = JNative ''function Boolean() { [native code] }''"
  "js_get (JStr ''ab'') ''trimLeft'' = JNative ''function trimStart() { [native code] }''"
  "js_get (JStr ''ab'') ''length'' = JNum 2"
  "js_get (JArr [JNull]) ''__proto__'' = JArr []"
  "js_get (JObj []) ''__proto__'' = JObj []"
  "js_get (JObj [(''toString'', JNum 1)]) ''toString'' = JNum 1"
  "js_get JNull ''toString'' = JUndefined"
  by (simp_all add: proto_lookup_def number_methods_def string_methods_def array_methods_def
      object_methods_def native_function_def is_array_index_def is_digit_def)

lemma style_body_cvalue: "cvalue (fst (style_body cell style)) = cvalue cell"
  by (simp add: style_body_def style_tail_def Let_def split: sum.splits)

lemma style_body_success:
  assumes "style_body cell style = (cell', None)"
  shows "(if truthy (js_get style ''font'')
          then font_literal (js_get style ''font'') = Inr (font cell')
          else font cell' = font cell)
         \<and> (if truthy (js_get style ''fill'') \<or> truthy (js_get style ''backgroundColor'')
            then fill_literal style = Inr (fill cell')
            else fill cell' = fill cell)
         \<and> alignment cell' =
           (if truthy (js_get style ''alignment'')
            then alignment_literal (js_get style ''alignment'') else alignment cell)
         \<and> border cell' =
           (if truthy (js_get style ''border'')
            then border_literal (js_get style ''border'') else border cell)
         \<and> numFmt cell' =
           (if truthy (js_get style ''numFmt'') then js_get style ''numFmt'' else numFmt cell)"
  using assms by (auto simp: style_body_def style_tail_def Let_def split: if_splits sum.splits)

text \<open>What a style that is applied without a warning leaves in the cell.\<close>

lemma applyCellStyle_applied:
  assumes "snd (applyCellStyle cell style) = []"
  shows "(if truthy (js_get style ''font'')
          then font_literal (js_get style ''font'') = Inr (font (fst (applyCellStyle cell style)))
          else font (fst (applyCellStyle cell style)) = font cell)
         \<and> (if truthy (js_get style ''fill'') \<or> truthy (js_get style ''backgroundColor'')
            then fill_literal style = Inr (fill (fst (applyCellStyle cell style)))
            else fill (fst (applyCellStyle cell style)) = fill cell)
         \<and> alignment (fst (applyCellStyle cell style)) =
           (if truthy (js_get style ''alignment'')
            then alignment_literal (js_get style ''alignment'') else alignment cell)
         \<and> border (fst (applyCellStyle cell style)) =
           (if truthy (js_get style ''border'')
            then border_literal (js_get style ''border'') else border cell)
         \<and> numFmt (fst (applyCellStyle cell style)) =
           (if truthy (js_get style ''numFmt'') then js_get style ''numFmt'' else numFmt cell)"
proof (cases "style_body cell style")
  case (Pair cell' r)
  show ?thesis
  proof (cases r)
    case None
    with Pair have b: "style_body cell style = (cell', None)" by simp
    then have "fst (applyCellStyle cell style) = cell'"
      by (simp add: applyCellStyle_def)
    with style_body_success [OF b] show ?thesis by simp
  next
    case (Some e)
    with Pair assms show ?thesis by (simp add: applyCellStyle_def)
  qed
qed

text \<open>The three ways in which the body of the \<^verbatim>\<open>try\<close> block ends, on a style that is
  neither \<^verbatim>\<open>null\<close> nor \<^verbatim>\<open>undefined\<close>.\<close>

lemma applyCellStyle_font_fails:
  assumes "style \<noteq> JUndefined" and "style \<noteq> JNull"
    and "truthy (js_get style ''font'')" and "font_literal (js_get style ''font'') = Inl e"
  shows "applyCellStyle cell style = (cell, [''Style application failed: '' @ message e])"
  using assms by (simp add: applyCellStyle_def style_body_def)

lemma applyCellStyle_fill_fails:
  assumes "style \<noteq> JUndefined" and "style \<noteq> JNull"
    and "if truthy (js_get style ''font'')
         then font_literal (js_get style ''font'') = Inr f else f = font cell"
    and "truthy (js_get style ''fill'') \<or> truthy (js_get style ''backgroundColor'')"
    and "fill_literal style = Inl e"
  shows "applyCellStyle cell style =
           (cell\<lparr>font := f\<rparr>, [''Style application failed: '' @ message e])"
  using assms by (auto simp: applyCellStyle_def style_body_def split: if_splits)

lemma applyCellStyle_succeeds:
  assumes "style \<noteq> JUndefined" and "style \<noteq> JNull"
    and "if truthy (js_get style ''font'')
         then font_literal (js_get style ''font'') = Inr f else f = font cell"
    and "if truthy (js_get style ''fill'') \<or> truthy (js_get style ''backgroundColor'')
         then fill_literal style = Inr fl else fl = fill cell"
  shows "applyCellStyle cell style =
           (cell\<lparr>font := f, fill := fl,
                  alignment := (if truthy (js_get style ''alignment'')
                                then alignment_literal (js_get style ''alignment'')
                                else alignment cell),
                  border := (if truthy (js_get style ''border'')
                             then border_literal (js_get style ''border'')
                             else border cell),
                  numFmt := (if truthy (js_get style ''numFmt'')
                             then js_get style ''numFmt'' else numFmt cell)\<rparr>, [])"
  using assms
  by (auto simp: applyCellStyle_def style_body_def style_tail_def Let_def split: if_splits)

text \<open>
  C9, as the claim states it, does not hold: a failure skips more than the offending
  sub-style. With a font colour that is an object (no string, so \<^verbatim>\<open>normalizeColor\<close>
  throws) and a well-formed alignment, the warning is logged and the alignment, which is
  not the offending sub-style, is not applied either; without the font the same alignment
  is applied.
\<close>

theorem applyCellStyle_skips_later_substyles:
  "snd (applyCellStyle empty_cell
          (JObj [(''font'', JObj [(''color'', JObj [(''argb'', JStr ''FFFFFFFF'')])]),
                 (''alignment'', JObj [(''horizontal'', JStr ''center'')])]))
     = [''Style application failed: color.replace is not a function'']
   \<and> alignment (fst (applyCellStyle empty_cell
          (JObj [(''font'', JObj [(''color'', JObj [(''argb'', JStr ''FFFFFFFF'')])]),
                 (''alignment'', JObj [(''horizontal'', JStr ''center'')])])))
     = JUndefined
   \<and> alignment (fst (applyCellStyle empty_cell
          (JObj [(''alignment'', JObj [(''horizontal'', JStr ''center'')])])))
     = JObj [(''horizontal'', JStr ''center''), (''vertical'', JStr ''top''),
             (''wrapText'', JBool False), (''indent'', JNum 0)]"
  by (simp add: applyCellStyle_def style_body_def style_tail_def font_literal_def
      normalizeColor_def alignment_literal_def js_or_def empty_cell_def inherited_style_keys)

text \<open>
  C9, amended. Applying a style returns normally for every style and cell (the function
  is total: an exception of the body ends up as one logged warning), and the value of the
  cell is unchanged. The sub-styles are applied in the order font, fill, alignment,
  border, number format, and the first one that fails ends the application: the
  sub-styles before it stay applied, the offending one and every one after it are
  skipped. So, on a style that is neither \<^verbatim>\<open>null\<close> nor \<^verbatim>\<open>undefined\<close>:
  \<^item> when the font is present and making it throws, the cell is left as it was;
  \<^item> when the font is absent or made, the fill is asked for (by \<^verbatim>\<open>fill\<close> or
    \<^verbatim>\<open>backgroundColor\<close>) and making it throws, the cell is left with the new font, if one
    was present, and nothing else changed;
  \<^item> when neither throws, no warning is logged, and the cell has the new font and the
    new fill, if present, the alignment and the border with their defaults filled in,
    if present, and the number format, if present.

  On \<^verbatim>\<open>null\<close> and \<^verbatim>\<open>undefined\<close> the cell is left as it was, with a warning.
\<close>

theorem applyCellStyle_never_throws:
  "cvalue (fst (applyCellStyle cell style)) = cvalue cell
   \<and> (snd (applyCellStyle cell style) = []
        \<or> (\<exists>e. snd (applyCellStyle cell style) = [''Style application failed: '' @ message e]))
   \<and> (style = JUndefined \<or> style = JNull \<longrightarrow>
        applyCellStyle cell style =
          (cell, [''Style application failed: Cannot read properties of undefined'']))
   \<and> (style \<noteq> JUndefined \<and> style \<noteq> JNull \<longrightarrow>
        (\<forall>e. truthy (js_get style ''font'') \<and> font_literal (js_get style ''font'') = Inl e
           \<longrightarrow> applyCellStyle cell style =
                 (cell, [''Style application failed: '' @ message e]))
      \<and> (\<forall>f e. (if truthy (js_get style ''font'')
                 then font_literal (js_get style ''font'') = Inr f else f = font cell)
              \<and> (truthy (js_get style ''fill'') \<or> truthy (js_get style ''backgroundColor''))
              \<and> fill_literal style = Inl e
           \<longrightarrow> applyCellStyle cell style =
                 (cell\<lparr>font := f\<rparr>, [''Style application failed: '' @ message e]))
      \<and> (\<forall>f fl. (if truthy (js_get style ''font'')
                  then font_literal (js_get style ''font'') = Inr f else f = font cell)
               \<and> (if truthy (js_get style ''fill'') \<or> truthy (js_get style ''backgroundColor'')
                  then fill_literal style = Inr fl else fl = fill cell)
           \<longrightarrow> applyCellStyle cell style =
                 (cell\<lparr>font := f, fill := fl,
                        alignment := (if truthy (js_get style ''alignment'')
                                      then alignment_literal (js_get style ''alignment'')
                                      else alignment cell),
                        border := (if truthy (js_get style ''border'')
                                   then border_literal (js_get style ''border'')
                                   else border cell),
                        numFmt := (if truthy (js_get style ''numFmt'')
                                   then js_get style ''numFmt'' else numFmt cell)\<rparr>, [])))"
proof -
  have v: "cvalue (fst (applyCellStyle cell style)) = cvalue cell"
    using style_body_cvalue [of cell style]
    by (cases "style_body cell style") (auto simp: applyCellStyle_def split: option.splits)
  have w: "snd (applyCellStyle cell style) = []
        \<or> (\<exists>e. snd (applyCellStyle cell style) = [''Style application failed: '' @ message e])"
    by (cases "style_body cell style") (auto simp: applyCellStyle_def split: option.splits)
  have n: "style = JUndefined \<or> style = JNull \<longrightarrow>
        applyCellStyle cell style =
          (cell, [''Style application failed: Cannot read properties of undefined''])"
    by (auto simp: applyCellStyle_def style_body_def)
  show ?thesis
    using v w n applyCellStyle_font_fails [where style = style and cell = cell]
      applyCellStyle_fill_fails [where style = style and cell = cell]
      applyCellStyle_succeeds [where style = style and cell = cell]
    by (intro conjI impI allI) (assumption | blast)+
qed

theorem applyCellStyle_never_throws_witness:
  "applyCellStyle (empty_cell\<lparr>cvalue := JStr ''Total''\<rparr>)
      (JObj [(''font'', JObj [(''bold'', JBool True)]),
             (''fill'', JObj [(''fgColor'', JNum 5)]),
             (''numFmt'', JStr ''0.00'')])
     = (empty_cell\<lparr>cvalue := JStr ''Total'',
          font := JObj [(''name'', JStr ''Calibri''), (''size'', JNum 11),
                        (''bold'', JBool True), (''italic'', JBool False),
                        (''underline'', JBool False), (''color'', JUndefined)]\<rparr>,
        [''Style application failed: color.replace is not a function''])
   \<and> applyCellStyle (empty_cell\<lparr>cvalue := JStr ''Total''\<rparr>)
      (JObj [(''font'', JObj [(''bold'', JBool True)]),
             (''backgroundColor'', JStr ''#ff0000''),
             (''numFmt'', JStr ''0.00'')])
     = (empty_cell\<lparr>cvalue := JStr ''Total'',
          font := JObj [(''name'', JStr ''Calibri''), (''size'', JNum 11),
                        (''bold'', JBool True), (''italic'', JBool False),
                        (''underline'', JBool False), (''color'', JUndefined)],
          fill := JObj [(''type'', JStr ''pattern''), (''pattern'', JStr ''solid''),
                        (''fgColor'', JObj [(''argb'', JStr ''FFFF0000'')])],
          numFmt := JStr ''0.00''\<rparr>, [])
   \<and> applyCellStyle (empty_cell\<lparr>cvalue := JStr ''Total''\<rparr>)
      (JObj [(''font'', JObj [(''color'', JNum 5)]), (''numFmt'', JStr ''0.00'')])
     = (empty_cell\<lparr>cvalue := JStr ''Total''\<rparr>,
        [''Style application failed: color.replace is not a function''])"
proof -
  let ?c = "empty_cell\<lparr>cvalue := JStr ''Total''\<rparr>"
  let ?font = "JObj [(''name'', JStr ''Calibri''), (''size'', JNum 11),
                     (''bold'', JBool True), (''italic'', JBool False),
                     (''underline'', JBool False), (''color'', JUndefined)]"
  let ?s1 = "JObj [(''font'', JObj [(''bold'', JBool True)]),
                   (''fill'', JObj [(''fgColor'', JNum 5)]), (''numFmt'', JStr ''0.00'')]"
  let ?s2 = "JObj [(''font'', JObj [(''bold'', JBool True)]),
                   (''backgroundColor'', JStr ''#ff0000''), (''numFmt'', JStr ''0.00'')]"
  let ?s3 = "JObj [(''font'', JObj [(''color'', JNum 5)]), (''numFmt'', JStr ''0.00'')]"
  have f: "font_literal (JObj [(''bold'', JBool True)]) = Inr ?font"
    by (simp add: font_literal_def js_or_def inherited_style_keys)
  have red: "normalizeColor (JStr ''#ff0000'') = Inr ''FFFF0000''"
    by code_simp
  have five: "normalizeColor (JNum 5) = Inl (TypeError ''color.replace is not a function'')"
    by (simp add: normalizeColor_def)
  have l1: "fill_literal ?s1 = Inl (TypeError ''color.replace is not a function'')"
    by (simp add: fill_literal_def js_or_def inherited_style_keys five)
  have l2: "fill_literal ?s2 =
      Inr (JObj [(''type'', JStr ''pattern''), (''pattern'', JStr ''solid''),
                 (''fgColor'', JObj [(''argb'', JStr ''FFFF0000'')])])"
    by (simp add: fill_literal_def js_or_def inherited_style_keys red)
  have l3: "font_literal (JObj [(''color'', JNum 5)]) =
      Inl (TypeError ''color.replace is not a function'')"
    by (simp add: font_literal_def js_or_def inherited_style_keys five)
  show ?thesis
    using applyCellStyle_never_throws [of ?c ?s1] applyCellStyle_never_throws [of ?c ?s2]
      applyCellStyle_never_throws [of ?c ?s3] f l1 l2 l3
    by (simp add: inherited_style_keys empty_cell_def)
qed

text \<open>
  C8, as the claim states it, does not hold for the tag \<open>text\<close>: an explicit format
  string does not override the default there.
\<close>

theorem applyCellDataType_text_ignores_format:
  "numFmt (fst (applyCellDataType empty_cell (JStr ''text'') (JStr ''0.0''))) = JStr ''@''
   \<and> numFmt (fst (applyCellDataType empty_cell (JStr ''text'') (JStr ''0.0''))) \<noteq> JStr ''0.0''"
proof -
  have "toLowerCase ''text'' = ''text''"
    by code_simp
  then show ?thesis
    by (simp add: applyCellDataType_def)
qed

text \<open>
  C8, amended. For every cell and every tag, read without regard to the case of its
  letters: the number format becomes the explicit format when one is supplied (a truthy
  value, so a non-empty string) and the tag is one of number, currency, percentage, date,
  datetime and time, and the fixed default of the tag otherwise; for the tag text it
  becomes \<open>@\<close> whatever format is supplied. No warning is logged.
\<close>

theorem applyCellDataType_formats:
  "(toLowerCase s = ''number'' \<longrightarrow>
      applyCellDataType cell (JStr s) f =
        (cell\<lparr>numFmt := (if truthy f then f else JStr ''0.00'')\<rparr>, []))
   \<and> (toLowerCase s = ''currency'' \<longrightarrow>
      applyCellDataType cell (JStr s) f =
        (cell\<lparr>numFmt := (if truthy f then f else JStr ''$#,##0.00'')\<rparr>, []))
   \<and> (toLowerCase s = ''percentage'' \<longrightarrow>
      applyCellDataType cell (JStr s) f =
        (cell\<lparr>numFmt := (if truthy f then f else JStr ''0.00%'')\<rparr>, []))
   \<and> (toLowerCase s = ''date'' \<longrightarrow>
      applyCellDataType cell (JStr s) f =
        (cell\<lparr>numFmt := (if truthy f then f else JStr ''mm/dd/yyyy'')\<rparr>, []))
   \<and> (toLowerCase s = ''datetime'' \<longrightarrow>
      applyCellDataType cell (JStr s) f =
        (cell\<lparr>numFmt := (if truthy f then f else JStr ''mm/dd/yyyy hh:mm:ss'')\<rparr>, []))
   \<and> (toLowerCase s = ''time'' \<longrightarrow>
      applyCellDataType cell (JStr s) f =
        (cell\<lparr>numFmt := (if truthy f then f else JStr ''hh:mm:ss'')\<rparr>, []))
   \<and> (toLowerCase s = ''text'' \<longrightarrow>
      applyCellDataType cell (JStr s) f = (cell\<lparr>numFmt := JStr ''@''\<rparr>, []))"
  by (simp add: applyCellDataType_def js_or_def)

theorem applyCellDataType_formats_witness:
  "toLowerCase ''Currency'' = ''currency''
   \<and> numFmt (fst (applyCellDataType empty_cell (JStr ''Currency'') (JStr ''0.0''))) = JStr ''0.0''
   \<and> numFmt (fst (applyCellDataType empty_cell (JStr ''Currency'') JUndefined)) = JStr ''$#,##0.00''
   \<and> toLowerCase ''text'' = ''text''
   \<and> numFmt (fst (applyCellDataType empty_cell (JStr ''text'') JUndefined)) = JStr ''@''"
proof -
  have c: "toLowerCase ''Currency'' = ''currency''"
    by code_simp
  have t: "toLowerCase ''text'' = ''text''"
    by code_simp
  show ?thesis
    using c t
      applyCellDataType_formats [of "''Currency''" empty_cell "JStr ''0.0''"]
      applyCellDataType_formats [of "''Currency''" empty_cell JUndefined]
      applyCellDataType_formats [of "''text''" empty_cell JUndefined]
    by simp
qed

section \<open>Range and table writers\<close>

lemma cell_at_update_cell:
  "cell_at (update_cell ws af) b = (if b = fst af then fst (snd af (cell_at ws (fst af))) else cell_at ws b)"
  by (simp add: update_cell_def split: prod.splits)

lemma cell_at_foldl_update:
  "distinct (map fst afs) \<Longrightarrow>
   cell_at (foldl update_cell ws afs) b =
     (case map_of afs b of None \<Rightarrow> cell_at ws b | Some f \<Rightarrow> fst (f (cell_at ws b)))"
proof (induction afs arbitrary: ws)
  case Nil
  then show ?case by simp
next
  case (Cons af afs)
  obtain a f where af: "af = (a, f)" by (cases af)
  from Cons.prems have d: "distinct (map fst afs)" and n: "a \<notin> fst ` set afs"
    by (simp_all add: af)
  have "map_of afs a = None"
    using n by (simp add: map_of_eq_None_iff)
  then show ?case
    using Cons.IH [OF d, of "update_cell ws af"]
    by (simp add: af cell_at_update_cell split: option.splits)
qed

lemma foldl_concat_map:
  "foldl (\<lambda>w x. foldl g w (h x)) w xs = foldl g w (concat (map h xs))"
  by (induction xs arbitrary: w) simp_all

lemma range_row_writes:
  "range_row startCol startRow style ws ir = foldl update_cell ws (row_writes startCol startRow style ir)"
  by (simp add: range_row_def row_writes_def foldl_map split: jvalue.splits)

lemma foldl_range_rows:
  "foldl (range_row startCol startRow style) ws irs =
   foldl update_cell ws (concat (map (row_writes startCol startRow style) irs))"
proof -
  have "range_row startCol startRow style = (\<lambda>w x. foldl update_cell w (row_writes startCol startRow style x))"
    by (intro ext) (rule range_row_writes)
  then show ?thesis
    by (simp add: foldl_concat_map)
qed

lemma distinct_concat_map:
  assumes "distinct xs"
    and "\<And>x. x \<in> set xs \<Longrightarrow> distinct (f x)"
    and "\<And>x y. x \<in> set xs \<Longrightarrow> y \<in> set xs \<Longrightarrow> x \<noteq> y \<Longrightarrow> set (f x) \<inter> set (f y) = {}"
  shows "distinct (concat (map f xs))"
  using assms
proof (induction xs)
  case Nil
  then show ?case by simp
next
  case (Cons x xs)
  have "distinct (concat (map f xs))"
    using Cons by simp
  moreover have "distinct (f x)" using Cons.prems by simp
  moreover have "set (f x) \<inter> set (concat (map f xs)) = {}"
  proof -
    have "\<And>y. y \<in> set xs \<Longrightarrow> set (f x) \<inter> set (f y) = {}"
      using Cons.prems by auto
    then show ?thesis by auto
  qed
  ultimately show ?case by simp
qed

lemma mod26_inj:
  fixes a x y :: int
  assumes "(a + x) mod 26 = (a + y) mod 26" and "0 \<le> x" and "x < 26" and "0 \<le> y" and "y < 26"
  shows "x = y"
proof (rule ccontr)
  assume ne: "x \<noteq> y"
  have "26 dvd (a + x) - (a + y)"
    using assms(1) by (simp add: mod_eq_dvd_iff)
  then have d: "26 dvd x - y" by simp
  then have d': "26 dvd y - x"
    by (metis dvd_minus_iff minus_diff_eq)
  from ne consider "0 < x - y" | "0 < y - x" by linarith
  then show False
  proof cases
    case 1
    from zdvd_imp_le [OF d 1] assms show False by linarith
  next
    case 2
    from zdvd_imp_le [OF d' 2] assms show False by linarith
  qed
qed

lemma getCellAddress_inj:
  assumes "is_upper c" and "0 \<le> r" and "0 \<le> r'" and "j < 26" and "j' < 26"
    and "getCellAddress (c # cs) r (int j) = getCellAddress (c # cs) r' (int j')"
  shows "r = r' \<and> j = j'"
proof -
  let ?k = "(column_index c + int j) mod 26" and ?k' = "(column_index c + int j') mod 26"
  have a1: "getCellAddress (c # cs) r (int j) = char_of (65 + ?k) # number_toString r"
    by (rule getCellAddress_nonneg [OF assms(1)]) simp
  have a2: "getCellAddress (c # cs) r' (int j') = char_of (65 + ?k') # number_toString r'"
    by (rule getCellAddress_nonneg [OF assms(1)]) simp
  from assms(6) a1 a2 have e1: "(char_of (65 + ?k) :: char) = char_of (65 + ?k')"
    and e2: "number_toString r = number_toString r'"
    by simp_all
  have k: "0 \<le> ?k" "?k < 26" and k': "0 \<le> ?k'" "?k' < 26" by simp_all
  have "column_index (char_of (65 + ?k)) = column_index (char_of (65 + ?k'))"
    using e1 by simp
  then have "?k = ?k'"
    using column_letter_upper(2) [OF k] column_letter_upper(2) [OF k'] by simp
  then have "int j = int j'"
  proof (rule mod26_inj)
    show "0 \<le> int j" "0 \<le> int j'" by simp_all
    show "int j < 26" "int j' < 26" using assms(4,5) by simp_all
  qed
  moreover have "r = r'"
    using e2 by (rule number_toString_inj_nonneg [OF assms(2,3)])
  ultimately show ?thesis by simp
qed

lemma upper_not_digit: "is_upper c \<Longrightarrow> \<not> is_digit c"
  by (simp add: is_upper_def is_digit_def)

lemma colon_not_upper: "\<not> is_upper CHR '':''"
  by (simp add: is_upper_def)

lemma colon_not_digit: "\<not> is_digit CHR '':''"
  by (simp add: is_digit_def)

lemma parse_anchor_valid:
  assumes "letters \<noteq> []" and "list_all is_upper letters"
    and "ds \<noteq> []" and "list_all is_digit ds"
  shows "parse_anchor (letters @ ds) = Inr (int (parse_digits ds), letters)"
proof -
  have nd: "\<forall>c\<in>set letters. \<not> is_digit c"
    using assms(2) by (simp add: list_all_iff upper_not_digit)
  have nu: "\<not> is_upper (hd ds)"
    using assms(3,4) upper_not_digit by (cases ds) auto
  have d: "is_digit (hd ds)"
    using assms(3,4) by (cases ds) auto
  have u: "is_upper (hd letters)"
    using assms(1,2) by (cases letters) auto
  have 1: "dropWhile (\<lambda>c. \<not> is_digit c) (letters @ ds) = ds"
    using nd d assms(3) by (cases ds) (simp_all add: dropWhile_append)
  have 2: "takeWhile is_digit ds = ds"
    using assms(4) by (simp add: list_all_iff)
  have 3: "dropWhile (\<lambda>c. \<not> is_upper c) (letters @ ds) = letters @ ds"
    using u assms(1) by (cases letters) simp_all
  have 4: "takeWhile is_upper (letters @ ds) = letters"
    using assms(2,3) nu by (cases ds) (simp_all add: list_all_iff takeWhile_append)
  show ?thesis
    using assms(1,3) by (simp add: parse_anchor_def match_run_def 1 2 3 4 Let_def)
qed

lemma split_first_anchor:
  assumes "list_all is_upper letters" and "list_all is_digit ds"
  shows "split_first (letters @ ds @ CHR '':'' # e) = letters @ ds"
    and "split_first (letters @ ds) = letters @ ds"
proof -
  have "\<forall>c\<in>set (letters @ ds). c \<noteq> CHR '':''"
    using assms colon_not_upper colon_not_digit by (auto simp: list_all_iff)
  then show "split_first (letters @ ds @ CHR '':'' # e) = letters @ ds"
    and "split_first (letters @ ds) = letters @ ds"
    unfolding split_first_def
    by (simp_all add: takeWhile_append del: append_assoc add: append_assoc [symmetric])
qed

lemma applyCellStyle_cvalue: "cvalue (fst (applyCellStyle c style)) = cvalue c"
  using style_body_cvalue [of c style]
  by (cases "style_body c style") (auto simp: applyCellStyle_def split: option.splits)

lemma styled_cvalue: "cvalue (fst (styled style cw)) = cvalue (fst cw)"
  using applyCellStyle_cvalue [of "fst cw" style]
  by (cases "applyCellStyle (fst cw) style") (simp add: styled_def)

lemma range_cell_cvalue:
  "cvalue (fst (range_cell style v c)) = (if v = JUndefined then JNull else v)"
  by (simp add: range_cell_def styled_cvalue set_value_def)

lemma range_cell_style:
  "fst (range_cell style v c) =
     (if truthy style then fst (applyCellStyle (set_value v c) style) else set_value v c)"
  by (cases "applyCellStyle (set_value v c) style") (simp add: range_cell_def styled_def)

lemma fst_row_writes:
  "map fst (row_writes (c # cs) startRow style (i, JArr vals)) =
     map (\<lambda>j. getCellAddress (c # cs) (startRow + int i) (int j)) [0..<length vals]"
  by (auto simp: row_writes_def enumerate_eq_zip intro!: nth_equalityI)

lemma set_fst_row_writes:
  assumes "a \<in> set (map fst (row_writes (c # cs) startRow style ir))"
  shows "\<exists>j < row_width (snd ir). a = getCellAddress (c # cs) (startRow + int (fst ir)) (int j)"
proof (cases "snd ir")
  case (JArr vals)
  then have "ir = (fst ir, JArr vals)" by (cases ir) simp
  then have "map fst (row_writes (c # cs) startRow style ir) =
      map (\<lambda>j. getCellAddress (c # cs) (startRow + int (fst ir)) (int j)) [0..<length vals]"
    using fst_row_writes [of c cs startRow style "fst ir" vals] by simp
  with assms
  have "a \<in> set (map (\<lambda>j. getCellAddress (c # cs) (startRow + int (fst ir)) (int j)) [0..<length vals])"
    by (simp only:)
  then show ?thesis
    using JArr by (auto simp: row_width_def)
qed (use assms in \<open>simp_all add: row_writes_def\<close>)

lemma distinct_row_writes:
  assumes "is_upper c" and "0 \<le> startRow" and "row_width (snd ir) \<le> 26"
  shows "distinct (map fst (row_writes (c # cs) startRow style ir))"
proof (cases "snd ir")
  case (JArr vals)
  then have ir: "ir = (fst ir, JArr vals)" by (cases ir) simp
  have w: "length vals \<le> 26"
    using assms(3) JArr by (simp add: row_width_def)
  have "inj_on (\<lambda>j. getCellAddress (c # cs) (startRow + int (fst ir)) (int j)) (set [0..<length vals])"
  proof (rule inj_onI)
    fix j j'
    assume "j \<in> set [0..<length vals]" and "j' \<in> set [0..<length vals]"
      and e: "getCellAddress (c # cs) (startRow + int (fst ir)) (int j)
            = getCellAddress (c # cs) (startRow + int (fst ir)) (int j')"
    then have "j < 26" and "j' < 26" using w by simp_all
    moreover have "0 \<le> startRow + int (fst ir)" using assms(2) by simp
    ultimately show "j = j'"
      using getCellAddress_inj [OF assms(1) _ _ _ _ e] by blast
  qed
  then have "distinct (map (\<lambda>j. getCellAddress (c # cs) (startRow + int (fst ir)) (int j)) [0..<length vals])"
    by (simp add: distinct_map)
  then show ?thesis
    using fst_row_writes [of c cs startRow style "fst ir" vals] ir by metis
qed (simp_all add: row_writes_def)

lemma distinct_range_writes:
  assumes "is_upper c" and "0 \<le> startRow" and "list_all (\<lambda>r. row_width r \<le> 26) rows"
  shows "distinct (map fst (range_writes (c # cs) startRow style rows))"
proof -
  let ?f = "\<lambda>ir. map fst (row_writes (c # cs) startRow style ir)"
  have w: "\<And>ir. ir \<in> set (enumerate 0 rows) \<Longrightarrow> row_width (snd ir) \<le> 26"
    using assms(3) by (auto simp: list_all_iff in_set_enumerate_eq)
  have "distinct (concat (map ?f (enumerate 0 rows)))"
  proof (rule distinct_concat_map)
    show "distinct (enumerate 0 rows)" by (rule distinct_enumerate)
  next
    fix ir assume "ir \<in> set (enumerate 0 rows)"
    then show "distinct (?f ir)"
      using distinct_row_writes [OF assms(1,2) w] by blast
  next
    fix ir ir'
    assume m: "ir \<in> set (enumerate 0 rows)" "ir' \<in> set (enumerate 0 rows)" and ne: "ir \<noteq> ir'"
    have i: "fst ir \<noteq> fst ir'"
      using m ne by (auto simp: in_set_enumerate_eq prod_eq_iff)
    show "set (?f ir) \<inter> set (?f ir') = {}"
    proof (rule ccontr)
      assume "set (?f ir) \<inter> set (?f ir') \<noteq> {}"
      then obtain a where a: "a \<in> set (?f ir)" "a \<in> set (?f ir')" by blast
      obtain j where j: "j < row_width (snd ir)"
        "a = getCellAddress (c # cs) (startRow + int (fst ir)) (int j)"
        using set_fst_row_writes [OF a(1)] by blast
      obtain j' where j': "j' < row_width (snd ir')"
        "a = getCellAddress (c # cs) (startRow + int (fst ir')) (int j')"
        using set_fst_row_writes [OF a(2)] by blast
      have "j < 26" "j' < 26"
        using j(1) j'(1) w [OF m(1)] w [OF m(2)] by simp_all
      moreover have "0 \<le> startRow + int (fst ir)" "0 \<le> startRow + int (fst ir')"
        using assms(2) by simp_all
      moreover have "getCellAddress (c # cs) (startRow + int (fst ir)) (int j)
          = getCellAddress (c # cs) (startRow + int (fst ir')) (int j')"
        using j(2) j'(2) by simp
      ultimately have "startRow + int (fst ir) = startRow + int (fst ir')"
        using getCellAddress_inj [OF assms(1)] by blast
      with i show False by simp
    qed
  qed
  then show ?thesis
    by (simp add: range_writes_def map_concat comp_def)
qed

lemma range_writes_member:
  assumes "i < length rows" and "rows ! i = JArr vals" and "j < length vals"
  shows "(getCellAddress startCol (startRow + int i) (int j), range_cell style (vals ! j))
           \<in> set (range_writes startCol startRow style rows)"
proof -
  have 1: "(i, JArr vals) \<in> set (enumerate 0 rows)"
    using assms(1,2) by (simp add: in_set_enumerate_eq)
  have 2: "(j, vals ! j) \<in> set (enumerate 0 vals)"
    using assms(3) by (simp add: in_set_enumerate_eq)
  have "(getCellAddress startCol (startRow + int i) (int j), range_cell style (vals ! j))
           \<in> set (row_writes startCol startRow style (i, JArr vals))"
    using 2 by (force simp: row_writes_def)
  then show ?thesis
    using 1 by (force simp: range_writes_def)
qed

lemma range_writes_addresses:
  assumes "a \<in> fst ` set (range_writes (c # cs) startRow style rows)"
  shows "\<exists>i j vals. i < length rows \<and> rows ! i = JArr vals \<and> j < length vals
           \<and> a = getCellAddress (c # cs) (startRow + int i) (int j)"
proof -
  from assms obtain ir where ir: "ir \<in> set (enumerate 0 rows)"
    and a: "a \<in> set (map fst (row_writes (c # cs) startRow style ir))"
    by (auto simp: range_writes_def)
  from set_fst_row_writes [OF a] obtain j where j: "j < row_width (snd ir)"
    "a = getCellAddress (c # cs) (startRow + int (fst ir)) (int j)"
    by blast
  from ir have i: "fst ir < length rows" "snd ir = rows ! fst ir"
    by (auto simp: in_set_enumerate_eq)
  from j(1) obtain vals where v: "snd ir = JArr vals" "j < length vals"
    by (cases "snd ir") (auto simp: row_width_def)
  show ?thesis
    using i j(2) v by (intro exI [of _ "fst ir"] exI [of _ j] exI [of _ vals]) simp
qed

subsection \<open>Addresses as ExcelJS decodes and encodes them\<close>

lemma decode_loop_digits:
  assumes "list_all is_digit ds" and "rest = [] \<or> (\<exists>e. rest = CHR '':'' # e)"
  shows "decode_loop (ds @ rest) (Some col) (Some (r, n)) =
           (Some col, Some (r @ ds, foldl (\<lambda>acc ch. 10 * acc + (of_char ch - 48)) n ds))"
  using assms
proof (induction ds arbitrary: r n)
  case Nil
  then show ?case
    using colon_not_digit by auto
next
  case (Cons d ds)
  from Cons.prems have d: "is_digit d" and ds: "list_all is_digit ds" by simp_all
  show ?case
    using Cons.IH [OF ds Cons.prems(2), of "r @ [d]" "n * 10 + (of_char d - 48)"] d
    by (simp add: mult.commute)
qed

lemma decode_loop_anchor:
  assumes "is_upper c" and "ds \<noteq> []" and "list_all is_digit ds"
    and "rest = [] \<or> (\<exists>e. rest = CHR '':'' # e)"
  shows "decode_loop (c # ds @ rest) None None =
           (Some ([c], column_number c), Some (ds, parse_digits ds))"
proof -
  from assms(2) obtain d ds' where ds: "ds = d # ds'" by (cases ds) simp_all
  with assms(3) have d: "is_digit d" and ds': "list_all is_digit ds'" by simp_all
  from d have nu: "\<not> is_upper d" using upper_not_digit by blast
  have "decode_loop (c # ds @ rest) None None =
      decode_loop (ds' @ rest) (Some ([c], column_number c)) (Some ([d], of_char d - 48))"
    using assms(1) d nu by (simp add: ds column_number_def)
  also have "\<dots> = (Some ([c], column_number c),
      Some ([d] @ ds', foldl (\<lambda>acc ch. 10 * acc + (of_char ch - 48)) (of_char d - 48) ds'))"
    by (rule decode_loop_digits [OF ds' assms(4)])
  finally show ?thesis
    by (simp add: ds parse_digits_def)
qed

lemma column_number_upper:
  assumes "is_upper c"
  shows "1 \<le> column_number c" and "column_number c \<le> 26"
    and "column_index c = int (column_number c) - 1"
proof -
  from assms have u: "65 \<le> (of_char c :: nat)" "(of_char c :: nat) \<le> 90"
    by (simp_all add: is_upper_def)
  show "1 \<le> column_number c" and "column_number c \<le> 26"
    using u unfolding column_number_def by linarith+
  show "column_index c = int (column_number c) - 1"
    using u unfolding column_number_def column_index_def of_char_int_nat by linarith
qed

lemma decodeAddress_anchor:
  assumes "is_upper c" and "ds \<noteq> []" and "list_all is_digit ds"
    and "rest = [] \<or> (\<exists>e. rest = CHR '':'' # e)"
  shows "decodeAddress (c # ds @ rest) =
           Inr (Some ([c], column_number c), Some (ds, parse_digits ds))"
  using decode_loop_anchor [OF assms] column_number_upper(2) [OF assms(1)]
  by (simp add: decodeAddress_def)

lemma getCell_check_anchor:
  assumes "is_upper c" and "ds \<noteq> []" and "list_all is_digit ds"
    and "rest = [] \<or> (\<exists>e. rest = CHR '':'' # e)"
  shows "getCell_check (c # ds @ rest) = None"
  using decodeAddress_anchor [OF assms] by (simp add: getCell_check_def)

lemma n2l_letter: "0 < n \<Longrightarrow> n \<le> 26 \<Longrightarrow> n2l n = [char_of (64 + n)]"
proof -
  assume n: "0 < n" "n \<le> 26"
  then have "(n - 1) div 26 = 0" and "(n - 1) mod 26 = n - 1" by simp_all
  moreover have "n2l 0 = []" by (simp add: n2l.simps)
  moreover have "65 + (n - 1) = 64 + n" using n by simp
  ultimately show ?thesis
    using n n2l.simps [of n] by simp
qed

text \<open>
  Within the columns A to Z the resolver gives the address that ExcelJS gives the cell in
  the row and in the column \<open>j\<close> places right of the anchor column.
\<close>

lemma getCellAddress_encodeAddress:
  assumes "is_upper c" and "column_number c + j \<le> 26"
  shows "getCellAddress (c # cs) row (int j) = encodeAddress row (column_number c + j)"
proof -
  note cn = column_number_upper [OF assms(1)]
  have s: "column_index c + int j = int (column_number c + j) - 1"
    using cn by simp
  have "0 \<le> column_index c + int j" and "column_index c + int j < 26"
    using cn assms(2) by simp_all
  then have m: "(column_index c + int j) mod 26 = int (column_number c + j) - 1"
    using s by simp
  have "65 + (int (column_number c + j) - 1) = int (64 + (column_number c + j))"
    by simp
  then have ch: "(char_of (65 + (int (column_number c + j) - 1)) :: char)
      = char_of (64 + (column_number c + j))"
    by (simp only: char_of_nat)
  have "getCellAddress (c # cs) row (int j) =
      char_of (65 + (column_index c + int j) mod 26) # number_toString row"
    by (rule getCellAddress_nonneg [OF assms(1)]) simp
  also have "\<dots> = char_of (64 + (column_number c + j)) # number_toString row"
    by (simp only: m ch)
  also have "\<dots> = encodeAddress row (column_number c + j)"
    using n2l_letter [of "column_number c + j"] cn(1) assms(2)
    by (simp add: encodeAddress_def)
  finally show ?thesis .
qed

text \<open>The addresses of the inner loops of the writers are accepted by \<^verbatim>\<open>getCell\<close>.\<close>

lemma getCell_check_getCellAddress:
  assumes "is_upper c" and "0 \<le> row"
  shows "getCell_check (getCellAddress (c # cs) row (int j)) = None"
proof -
  let ?k = "(column_index c + int j) mod 26"
  have k: "0 \<le> ?k" "?k < 26" by simp_all
  have a: "getCellAddress (c # cs) row (int j) = char_of (65 + ?k) # number_toString row"
    by (rule getCellAddress_nonneg [OF assms(1)]) simp
  have u: "is_upper (char_of (65 + ?k))"
    by (rule column_letter_upper(1) [OF k])
  have d: "list_all is_digit (number_toString row)" "number_toString row \<noteq> []"
    using assms(2) digits_of_all_digits [of "nat row"] digits_of_not_Nil [of "nat row"]
    by (simp_all add: number_toString_def)
  show ?thesis
    using getCell_check_anchor [OF u d(2) d(1), of "[]"] a by simp
qed

subsection \<open>Range write\<close>

lemma processRange_flat:
  assumes "r_data rd = JArr rows"
    and "getCell_check (r_range rd) = None"
    and "parse_anchor (split_first (r_range rd)) = Inr (startRow, startCol)"
  shows "processRange ws rd =
     Inr (foldl update_cell ws (range_writes startCol startRow (r_style rd) rows))"
  using assms by (simp add: processRange_def foldl_range_rows range_writes_def)

text \<open>
  What ExcelJS decodes of a range string is its start anchor, so the first statement of
  \<^verbatim>\<open>processRange\<close> does not depend on the end component either: for every anchor of
  capital letters and digits, the writer returns the same, or throws the same, whatever
  follows the colon.
\<close>

lemma decode_loop_letters:
  assumes "list_all is_upper ls"
  shows "decode_loop (ls @ rest) (Some (c, n)) None =
           decode_loop rest
             (Some (c @ ls, foldl (\<lambda>acc ch. acc * 26 + (of_char ch - 64)) n ls)) None"
  using assms by (induction ls arbitrary: c n) simp_all

lemma decode_loop_start:
  assumes "letters \<noteq> []" and "list_all is_upper letters"
    and "ds \<noteq> []" and "list_all is_digit ds"
    and "rest = [] \<or> (\<exists>e. rest = CHR '':'' # e)"
  shows "decode_loop (letters @ ds @ rest) None None =
           (Some (letters, foldl (\<lambda>acc ch. acc * 26 + (of_char ch - 64)) 0 letters),
            Some (ds, parse_digits ds))"
proof -
  from assms(1,2) obtain l ls where l: "letters = l # ls" "is_upper l" "list_all is_upper ls"
    by (cases letters) auto
  from assms(3,4) obtain d ds' where d: "ds = d # ds'" "is_digit d" "list_all is_digit ds'"
    by (cases ds) auto
  from d(2) have nu: "\<not> is_upper d" using upper_not_digit by blast
  let ?col = "(letters, foldl (\<lambda>acc ch. acc * 26 + (of_char ch - 64)) 0 letters)"
  have "decode_loop (letters @ ds @ rest) None None =
      decode_loop (ls @ ds @ rest) (Some ([l], of_char l - 64)) None"
    using l(2) by (simp add: l(1))
  also have "\<dots> = decode_loop (ds @ rest) (Some ?col) None"
    using decode_loop_letters [OF l(3), of "ds @ rest" "[l]" "of_char l - 64"]
    by (simp add: l(1))
  also have "\<dots> = decode_loop (ds' @ rest) (Some ?col) (Some ([d], of_char d - 48))"
    using d(2) nu by (simp add: d(1))
  also have "\<dots> = (Some ?col,
      Some ([d] @ ds', foldl (\<lambda>acc ch. 10 * acc + (of_char ch - 48)) (of_char d - 48) ds'))"
    by (rule decode_loop_digits [OF d(3) assms(5)])
  finally show ?thesis
    by (simp add: d(1) parse_digits_def)
qed

lemma getCell_check_start:
  assumes "letters \<noteq> []" and "list_all is_upper letters"
    and "ds \<noteq> []" and "list_all is_digit ds"
  shows "getCell_check (letters @ ds @ CHR '':'' # e) = getCell_check (letters @ ds)"
  using decode_loop_start [OF assms, of "CHR '':'' # e"] decode_loop_start [OF assms, of "[]"]
  by (simp add: getCell_check_def decodeAddress_def)

lemma processRange_end_ignored:
  assumes "letters \<noteq> []" and "list_all is_upper letters"
    and "ds \<noteq> []" and "list_all is_digit ds"
  shows "processRange ws (rd\<lparr>r_range := letters @ ds @ CHR '':'' # e\<rparr>) =
           processRange ws (rd\<lparr>r_range := letters @ ds\<rparr>)"
  using getCell_check_start [OF assms, of e] split_first_anchor [OF assms(2,4)]
  by (simp add: processRange_def split: option.splits jvalue.splits sum.splits prod.splits)

text \<open>
  The writes of a range under an anchor whose column is one letter, as long as no row
  reaches beyond column Z: every value is in its own cell, and no other cell is touched.
\<close>

lemma range_writes_cells:
  assumes "is_upper c" and "0 \<le> startRow"
    and "list_all (\<lambda>r. column_index c + int (row_width r) \<le> 26) rows"
  shows "i < length rows \<Longrightarrow> rows ! i = JArr vals \<Longrightarrow> j < length vals \<Longrightarrow>
           getCellAddress [c] (startRow + int i) (int j)
             = encodeAddress (startRow + int i) (column_number c + j)
           \<and> cell_at (foldl update_cell ws (range_writes [c] startRow style rows))
               (encodeAddress (startRow + int i) (column_number c + j))
             = fst (range_cell style (vals ! j)
                 (cell_at ws (encodeAddress (startRow + int i) (column_number c + j))))"
    and "(\<And>i j vals. i < length rows \<Longrightarrow> rows ! i = JArr vals \<Longrightarrow> j < length vals \<Longrightarrow>
             a \<noteq> encodeAddress (startRow + int i) (column_number c + j)) \<Longrightarrow>
           cell_at (foldl update_cell ws (range_writes [c] startRow style rows)) a = cell_at ws a"
proof -
  let ?W = "range_writes [c] startRow style rows"
  note cn = column_number_upper [OF assms(1)]
  have w: "list_all (\<lambda>r. row_width r \<le> 26) rows"
    using assms(3) cn by (auto simp: list_all_iff)
  have d: "distinct (map fst ?W)"
    by (rule distinct_range_writes [OF assms(1,2) w])
  have enc: "getCellAddress [c] (startRow + int i) (int j)
      = encodeAddress (startRow + int i) (column_number c + j)"
    if "i < length rows" "rows ! i = JArr vals" "j < length vals" for i j vals
  proof -
    have "rows ! i \<in> set rows" using that(1) by simp
    then have "column_index c + int (row_width (rows ! i)) \<le> 26"
      using assms(3) by (simp add: list_all_iff)
    then have "column_number c + j \<le> 26"
      using that(2,3) cn by (simp add: row_width_def)
    then show ?thesis
      by (rule getCellAddress_encodeAddress [OF assms(1)])
  qed
  show "getCellAddress [c] (startRow + int i) (int j)
             = encodeAddress (startRow + int i) (column_number c + j)
           \<and> cell_at (foldl update_cell ws ?W)
               (encodeAddress (startRow + int i) (column_number c + j))
             = fst (range_cell style (vals ! j)
                 (cell_at ws (encodeAddress (startRow + int i) (column_number c + j))))"
    if i: "i < length rows" "rows ! i = JArr vals" "j < length vals"
  proof -
    have "map_of ?W (getCellAddress [c] (startRow + int i) (int j))
        = Some (range_cell style (vals ! j))"
      using d range_writes_member [OF i] by (rule map_of_is_SomeI)
    then have "cell_at (foldl update_cell ws ?W) (getCellAddress [c] (startRow + int i) (int j))
        = fst (range_cell style (vals ! j)
            (cell_at ws (getCellAddress [c] (startRow + int i) (int j))))"
      using cell_at_foldl_update [OF d] by simp
    then show ?thesis
      by (simp only: enc [OF i] simp_thms)
  qed
  show "cell_at (foldl update_cell ws ?W) a = cell_at ws a"
    if fr: "\<And>i j vals. i < length rows \<Longrightarrow> rows ! i = JArr vals \<Longrightarrow> j < length vals \<Longrightarrow>
             a \<noteq> encodeAddress (startRow + int i) (column_number c + j)"
  proof -
    have "a \<notin> fst ` set ?W"
    proof
      assume "a \<in> fst ` set ?W"
      from range_writes_addresses [OF this]
      obtain i j vals where i: "i < length rows" "rows ! i = JArr vals" "j < length vals"
        and a: "a = getCellAddress [c] (startRow + int i) (int j)"
        by blast
      from a enc [OF i] fr [OF i] show False by simp
    qed
    then have "map_of ?W a = None"
      by (simp add: map_of_eq_None_iff)
    then show ?thesis
      using cell_at_foldl_update [OF d] by simp
  qed
qed

text \<open>
  C4, as the claim states it, does not hold: the writer does not write at the column
  \<open>anchorColumn + j\<close> in general. The address resolver reads the first letter of the
  anchor column only and wraps after Z. With the anchor AB3 the value is written in A3 and
  AB3 stays empty; with the anchor Z3 the second value of a row is written in A3 and AA3,
  the cell one column right of Z3, stays empty. And a range string whose column ExcelJS
  cannot decode is refused before anything is written.
\<close>

theorem processRange_first_letter_wraps:
  "(\<exists>ws'. processRange empty_worksheet
             \<lparr>r_range = ''AB3:AC3'', r_data = JArr [JArr [JStr ''x'']], r_style = JUndefined\<rparr>
             = Inr ws'
        \<and> cvalue (cell_at ws' ''A3'') = JStr ''x''
        \<and> cell_at ws' ''AB3'' = empty_cell)
   \<and> (\<exists>ws'. processRange empty_worksheet
             \<lparr>r_range = ''Z3:AA3'', r_data = JArr [JArr [JStr ''p'', JStr ''q'']],
              r_style = JUndefined\<rparr>
             = Inr ws'
        \<and> cvalue (cell_at ws' ''Z3'') = JStr ''p''
        \<and> cvalue (cell_at ws' ''A3'') = JStr ''q''
        \<and> cell_at ws' ''AA3'' = empty_cell)
   \<and> encodeAddress 3 28 = ''AB3'' \<and> encodeAddress 3 27 = ''AA3''
   \<and> processRange empty_worksheet
        \<lparr>r_range = ''ZZZZ1:A1'', r_data = JArr [JArr [JStr ''x'']], r_style = JUndefined\<rparr>
       = Inl (APIError ''Range processing failed: Out of bounds. Invalid column letter: ZZZZ'' 422)"
proof -
  have g: "getCell_check ''AB3:AC3'' = None" "getCell_check ''Z3:AA3'' = None"
    "getCell_check ''ZZZZ1:A1'' = Some (Error ''Out of bounds. Invalid column letter: ZZZZ'')"
    by (simp_all add: getCell_check_def decodeAddress_def is_upper_def is_digit_def)
  have p: "parse_anchor (split_first ''AB3:AC3'') = Inr (3, ''AB'')"
    "parse_anchor (split_first ''Z3:AA3'') = Inr (3, ''Z'')"
    by code_simp+
  have a: "getCellAddress ''AB'' 3 0 = ''A3''" "getCellAddress ''Z'' 3 0 = ''Z3''"
    "getCellAddress ''Z'' 3 1 = ''A3''"
    by code_simp+
  have e: "encodeAddress 3 28 = ''AB3''" "encodeAddress 3 27 = ''AA3''"
    by code_simp+
  let ?rd1 = "\<lparr>r_range = ''AB3:AC3'', r_data = JArr [JArr [JStr ''x'']], r_style = JUndefined\<rparr>"
  let ?rd2 = "\<lparr>r_range = ''Z3:AA3'', r_data = JArr [JArr [JStr ''p'', JStr ''q'']],
               r_style = JUndefined\<rparr>"
  let ?rd3 = "\<lparr>r_range = ''ZZZZ1:A1'', r_data = JArr [JArr [JStr ''x'']], r_style = JUndefined\<rparr>"
  have 1: "processRange empty_worksheet ?rd1 =
      Inr (foldl update_cell empty_worksheet (range_writes ''AB'' 3 JUndefined [JArr [JStr ''x'']]))"
    using processRange_flat [of ?rd1 "[JArr [JStr ''x'']]" 3 "''AB''" empty_worksheet]
    by (simp add: g p)
  have 2: "processRange empty_worksheet ?rd2 =
      Inr (foldl update_cell empty_worksheet
             (range_writes ''Z'' 3 JUndefined [JArr [JStr ''p'', JStr ''q'']]))"
    using processRange_flat [of ?rd2 "[JArr [JStr ''p'', JStr ''q'']]" 3 "''Z''" empty_worksheet]
    by (simp add: g p)
  have 3: "processRange empty_worksheet ?rd3 =
      Inl (APIError ''Range processing failed: Out of bounds. Invalid column letter: ZZZZ'' 422)"
    by (simp add: processRange_def g)
  have c1: "cvalue (cell_at (foldl update_cell empty_worksheet
                (range_writes ''AB'' 3 JUndefined [JArr [JStr ''x'']])) ''A3'') = JStr ''x''"
    "cell_at (foldl update_cell empty_worksheet
                (range_writes ''AB'' 3 JUndefined [JArr [JStr ''x'']])) ''AB3'' = empty_cell"
    by (simp_all add: range_writes_def row_writes_def a cell_at_update_cell range_cell_def
        set_value_def empty_worksheet_def empty_cell_def)
  have c2: "cvalue (cell_at (foldl update_cell empty_worksheet
                (range_writes ''Z'' 3 JUndefined [JArr [JStr ''p'', JStr ''q'']])) ''Z3'') = JStr ''p''"
    "cvalue (cell_at (foldl update_cell empty_worksheet
                (range_writes ''Z'' 3 JUndefined [JArr [JStr ''p'', JStr ''q'']])) ''A3'') = JStr ''q''"
    "cell_at (foldl update_cell empty_worksheet
                (range_writes ''Z'' 3 JUndefined [JArr [JStr ''p'', JStr ''q'']])) ''AA3'' = empty_cell"
    by (simp_all add: range_writes_def row_writes_def a cell_at_update_cell range_cell_def
        set_value_def empty_worksheet_def empty_cell_def)
  show ?thesis
    using 1 2 3 c1 c2 e by simp
qed

text \<open>
  C4, amended. For a range whose string is an anchor of one capital letter and a row
  number, followed by a colon and an end component, and whose data is an array of rows of
  which none reaches beyond column Z (the zero-based index of the anchor column plus the
  length of the row is at most 26): the writer returns normally, and afterwards
  \<^item> the cell in the row \<open>anchorRow + i\<close> and the column \<open>anchorColumn + j\<close> holds
    \<open>data[i][j]\<close> (\<^verbatim>\<open>null\<close> for \<^verbatim>\<open>undefined\<close>), and it is the cell that was there, given
    that value and then, if the range has a style, that style: when the style is applied
    without a warning, font, fill, alignment, border and number format are those of the
    style, each where the style has it;
  \<^item> every other cell is as it was (a row that is not an array writes nothing);
  \<^item> the result is the same for every end component and for none.
\<close>

theorem processRange_writes:
  assumes "is_upper c" and "ds \<noteq> []" and "list_all is_digit ds"
    and "r_range rd = c # ds @ CHR '':'' # e"
    and "r_data rd = JArr rows"
    and "list_all (\<lambda>r. column_index c + int (row_width r) \<le> 26) rows"
  shows "\<exists>ws'. processRange ws rd = Inr ws'
     \<and> (\<forall>i j vals. i < length rows \<and> rows ! i = JArr vals \<and> j < length vals \<longrightarrow>
          cell_at ws' (encodeAddress (int (parse_digits ds) + int i) (column_number c + j)) =
            (if truthy (r_style rd)
             then fst (applyCellStyle
                    (set_value (vals ! j)
                       (cell_at ws (encodeAddress (int (parse_digits ds) + int i)
                                      (column_number c + j))))
                    (r_style rd))
             else set_value (vals ! j)
                    (cell_at ws (encodeAddress (int (parse_digits ds) + int i)
                                   (column_number c + j))))
          \<and> cvalue (cell_at ws' (encodeAddress (int (parse_digits ds) + int i)
                                   (column_number c + j))) =
              (if vals ! j = JUndefined then JNull else vals ! j)
          \<and> (truthy (r_style rd)
               \<and> snd (applyCellStyle
                        (set_value (vals ! j)
                           (cell_at ws (encodeAddress (int (parse_digits ds) + int i)
                                          (column_number c + j))))
                        (r_style rd)) = []
             \<longrightarrow>
               (if truthy (js_get (r_style rd) ''font'')
                then font_literal (js_get (r_style rd) ''font'') =
                       Inr (font (cell_at ws' (encodeAddress (int (parse_digits ds) + int i)
                                                 (column_number c + j))))
                else font (cell_at ws' (encodeAddress (int (parse_digits ds) + int i)
                                          (column_number c + j))) =
                     font (cell_at ws (encodeAddress (int (parse_digits ds) + int i)
                                         (column_number c + j))))
               \<and> (if truthy (js_get (r_style rd) ''fill'')
                       \<or> truthy (js_get (r_style rd) ''backgroundColor'')
                  then fill_literal (r_style rd) =
                         Inr (fill (cell_at ws' (encodeAddress (int (parse_digits ds) + int i)
                                                   (column_number c + j))))
                  else fill (cell_at ws' (encodeAddress (int (parse_digits ds) + int i)
                                            (column_number c + j))) =
                       fill (cell_at ws (encodeAddress (int (parse_digits ds) + int i)
                                           (column_number c + j))))
               \<and> alignment (cell_at ws' (encodeAddress (int (parse_digits ds) + int i)
                                           (column_number c + j))) =
                   (if truthy (js_get (r_style rd) ''alignment'')
                    then alignment_literal (js_get (r_style rd) ''alignment'')
                    else alignment (cell_at ws (encodeAddress (int (parse_digits ds) + int i)
                                                  (column_number c + j))))
               \<and> border (cell_at ws' (encodeAddress (int (parse_digits ds) + int i)
                                        (column_number c + j))) =
                   (if truthy (js_get (r_style rd) ''border'')
                    then border_literal (js_get (r_style rd) ''border'')
                    else border (cell_at ws (encodeAddress (int (parse_digits ds) + int i)
                                               (column_number c + j))))
               \<and> numFmt (cell_at ws' (encodeAddress (int (parse_digits ds) + int i)
                                        (column_number c + j))) =
                   (if truthy (js_get (r_style rd) ''numFmt'')
                    then js_get (r_style rd) ''numFmt''
                    else numFmt (cell_at ws (encodeAddress (int (parse_digits ds) + int i)
                                               (column_number c + j))))))
     \<and> (\<forall>a. (\<forall>i j vals. i < length rows \<and> rows ! i = JArr vals \<and> j < length vals \<longrightarrow>
                a \<noteq> encodeAddress (int (parse_digits ds) + int i) (column_number c + j))
            \<longrightarrow> cell_at ws' a = cell_at ws a)
     \<and> (\<forall>e'. processRange ws (rd\<lparr>r_range := c # ds @ CHR '':'' # e'\<rparr>) = Inr ws')
     \<and> processRange ws (rd\<lparr>r_range := c # ds\<rparr>) = Inr ws'"
proof -
  let ?r = "int (parse_digits ds)"
  let ?W = "range_writes [c] ?r (r_style rd) rows"
  let ?ws' = "foldl update_cell ws ?W"
  let ?style = "r_style rd"
  have pa: "parse_anchor ([c] @ ds) = Inr (?r, [c])"
    by (rule parse_anchor_valid) (use assms(1-3) in simp_all)
  have sp: "split_first ([c] @ ds @ CHR '':'' # x) = [c] @ ds"
    "split_first ([c] @ ds) = [c] @ ds" for x
    using split_first_anchor [of "[c]" ds] assms(1,3) by simp_all
  have gc: "getCell_check (c # ds @ CHR '':'' # x) = None" "getCell_check (c # ds) = None" for x
    using getCell_check_anchor [OF assms(1-3), of "CHR '':'' # x"]
      getCell_check_anchor [OF assms(1-3), of "[]"] by simp_all
  have flat: "processRange ws rd = Inr ?ws'"
    using assms(4,5) pa sp gc by (intro processRange_flat) simp_all
  have e1: "processRange ws (rd\<lparr>r_range := c # ds @ CHR '':'' # e'\<rparr>) = Inr ?ws'" for e'
    using processRange_flat [of "rd\<lparr>r_range := c # ds @ CHR '':'' # e'\<rparr>" rows ?r "[c]" ws]
      assms(5) pa sp gc by simp
  have e2: "processRange ws (rd\<lparr>r_range := c # ds\<rparr>) = Inr ?ws'"
    using processRange_flat [of "rd\<lparr>r_range := c # ds\<rparr>" rows ?r "[c]" ws]
      assms(5) pa sp gc by simp
  note rw = range_writes_cells [OF assms(1) _ assms(6), of ?r]
  have cells: "cell_at ?ws' (encodeAddress (?r + int i) (column_number c + j)) =
        fst (range_cell ?style (vals ! j)
               (cell_at ws (encodeAddress (?r + int i) (column_number c + j))))"
    if "i < length rows" "rows ! i = JArr vals" "j < length vals" for i j vals
    using rw(1) [OF _ that, of ws ?style] by simp
  have frame: "cell_at ?ws' a = cell_at ws a"
    if "\<forall>i j vals. i < length rows \<and> rows ! i = JArr vals \<and> j < length vals \<longrightarrow>
          a \<noteq> encodeAddress (?r + int i) (column_number c + j)" for a
    using that by (intro rw(2)) simp_all
  have one: "cell_at ?ws' (encodeAddress (?r + int i) (column_number c + j)) =
            (if truthy ?style
             then fst (applyCellStyle
                    (set_value (vals ! j)
                       (cell_at ws (encodeAddress (?r + int i) (column_number c + j))))
                    ?style)
             else set_value (vals ! j)
                    (cell_at ws (encodeAddress (?r + int i) (column_number c + j))))
          \<and> cvalue (cell_at ?ws' (encodeAddress (?r + int i) (column_number c + j))) =
              (if vals ! j = JUndefined then JNull else vals ! j)
          \<and> (truthy ?style
               \<and> snd (applyCellStyle
                        (set_value (vals ! j)
                           (cell_at ws (encodeAddress (?r + int i) (column_number c + j))))
                        ?style) = []
             \<longrightarrow>
               (if truthy (js_get ?style ''font'')
                then font_literal (js_get ?style ''font'') =
                       Inr (font (cell_at ?ws' (encodeAddress (?r + int i) (column_number c + j))))
                else font (cell_at ?ws' (encodeAddress (?r + int i) (column_number c + j))) =
                     font (cell_at ws (encodeAddress (?r + int i) (column_number c + j))))
               \<and> (if truthy (js_get ?style ''fill'') \<or> truthy (js_get ?style ''backgroundColor'')
                  then fill_literal ?style =
                         Inr (fill (cell_at ?ws' (encodeAddress (?r + int i) (column_number c + j))))
                  else fill (cell_at ?ws' (encodeAddress (?r + int i) (column_number c + j))) =
                       fill (cell_at ws (encodeAddress (?r + int i) (column_number c + j))))
               \<and> alignment (cell_at ?ws' (encodeAddress (?r + int i) (column_number c + j))) =
                   (if truthy (js_get ?style ''alignment'')
                    then alignment_literal (js_get ?style ''alignment'')
                    else alignment (cell_at ws (encodeAddress (?r + int i) (column_number c + j))))
               \<and> border (cell_at ?ws' (encodeAddress (?r + int i) (column_number c + j))) =
                   (if truthy (js_get ?style ''border'')
                    then border_literal (js_get ?style ''border'')
                    else border (cell_at ws (encodeAddress (?r + int i) (column_number c + j))))
               \<and> numFmt (cell_at ?ws' (encodeAddress (?r + int i) (column_number c + j))) =
                   (if truthy (js_get ?style ''numFmt'')
                    then js_get ?style ''numFmt''
                    else numFmt (cell_at ws (encodeAddress (?r + int i) (column_number c + j)))))"
    if i: "i < length rows \<and> rows ! i = JArr vals \<and> j < length vals" for i j vals
  proof -
    let ?a = "encodeAddress (?r + int i) (column_number c + j)"
    let ?c0 = "set_value (vals ! j) (cell_at ws ?a)"
    from i have c: "cell_at ?ws' ?a = fst (range_cell ?style (vals ! j) (cell_at ws ?a))"
      by (intro cells) simp_all
    have 1: "cell_at ?ws' ?a =
        (if truthy ?style then fst (applyCellStyle ?c0 ?style) else ?c0)"
      by (simp only: c range_cell_style)
    have 2: "cvalue (cell_at ?ws' ?a) = (if vals ! j = JUndefined then JNull else vals ! j)"
      by (simp only: c range_cell_cvalue)
    have 3: "truthy ?style \<and> snd (applyCellStyle ?c0 ?style) = [] \<longrightarrow>
               (if truthy (js_get ?style ''font'')
                then font_literal (js_get ?style ''font'') = Inr (font (cell_at ?ws' ?a))
                else font (cell_at ?ws' ?a) = font (cell_at ws ?a))
               \<and> (if truthy (js_get ?style ''fill'') \<or> truthy (js_get ?style ''backgroundColor'')
                  then fill_literal ?style = Inr (fill (cell_at ?ws' ?a))
                  else fill (cell_at ?ws' ?a) = fill (cell_at ws ?a))
               \<and> alignment (cell_at ?ws' ?a) =
                   (if truthy (js_get ?style ''alignment'')
                    then alignment_literal (js_get ?style ''alignment'')
                    else alignment (cell_at ws ?a))
               \<and> border (cell_at ?ws' ?a) =
                   (if truthy (js_get ?style ''border'')
                    then border_literal (js_get ?style ''border'')
                    else border (cell_at ws ?a))
               \<and> numFmt (cell_at ?ws' ?a) =
                   (if truthy (js_get ?style ''numFmt'')
                    then js_get ?style ''numFmt''
                    else numFmt (cell_at ws ?a))"
    proof
      assume h: "truthy ?style \<and> snd (applyCellStyle ?c0 ?style) = []"
      then have eq: "cell_at ?ws' ?a = fst (applyCellStyle ?c0 ?style)"
        using 1 by simp
      from h have "snd (applyCellStyle ?c0 ?style) = []" by simp
      note ap = applyCellStyle_applied [OF this]
      show
        "(if truthy (js_get ?style ''font'')
                then font_literal (js_get ?style ''font'') = Inr (font (cell_at ?ws' ?a))
                else font (cell_at ?ws' ?a) = font (cell_at ws ?a))
               \<and> (if truthy (js_get ?style ''fill'') \<or> truthy (js_get ?style ''backgroundColor'')
                  then fill_literal ?style = Inr (fill (cell_at ?ws' ?a))
                  else fill (cell_at ?ws' ?a) = fill (cell_at ws ?a))
               \<and> alignment (cell_at ?ws' ?a) =
                   (if truthy (js_get ?style ''alignment'')
                    then alignment_literal (js_get ?style ''alignment'')
                    else alignment (cell_at ws ?a))
               \<and> border (cell_at ?ws' ?a) =
                   (if truthy (js_get ?style ''border'')
                    then border_literal (js_get ?style ''border'')
                    else border (cell_at ws ?a))
               \<and> numFmt (cell_at ?ws' ?a) =
                   (if truthy (js_get ?style ''numFmt'')
                    then js_get ?style ''numFmt''
                    else numFmt (cell_at ws ?a))"
        unfolding eq using ap by (simp add: set_value_def cong: if_cong)
    qed
    from 1 2 3 show ?thesis by (intro conjI)
  qed
  have all: "\<forall>i j vals. i < length rows \<and> rows ! i = JArr vals \<and> j < length vals \<longrightarrow>
          cell_at ?ws' (encodeAddress (?r + int i) (column_number c + j)) =
            (if truthy ?style
             then fst (applyCellStyle
                    (set_value (vals ! j)
                       (cell_at ws (encodeAddress (?r + int i) (column_number c + j))))
                    ?style)
             else set_value (vals ! j)
                    (cell_at ws (encodeAddress (?r + int i) (column_number c + j))))
          \<and> cvalue (cell_at ?ws' (encodeAddress (?r + int i) (column_number c + j))) =
              (if vals ! j = JUndefined then JNull else vals ! j)
          \<and> (truthy ?style
               \<and> snd (applyCellStyle
                        (set_value (vals ! j)
                           (cell_at ws (encodeAddress (?r + int i) (column_number c + j))))
                        ?style) = []
             \<longrightarrow>
               (if truthy (js_get ?style ''font'')
                then font_literal (js_get ?style ''font'') =
                       Inr (font (cell_at ?ws' (encodeAddress (?r + int i) (column_number c + j))))
                else font (cell_at ?ws' (encodeAddress (?r + int i) (column_number c + j))) =
                     font (cell_at ws (encodeAddress (?r + int i) (column_number c + j))))
               \<and> (if truthy (js_get ?style ''fill'') \<or> truthy (js_get ?style ''backgroundColor'')
                  then fill_literal ?style =
                         Inr (fill (cell_at ?ws' (encodeAddress (?r + int i) (column_number c + j))))
                  else fill (cell_at ?ws' (encodeAddress (?r + int i) (column_number c + j))) =
                       fill (cell_at ws (encodeAddress (?r + int i) (column_number c + j))))
               \<and> alignment (cell_at ?ws' (encodeAddress (?r + int i) (column_number c + j))) =
                   (if truthy (js_get ?style ''alignment'')
                    then alignment_literal (js_get ?style ''alignment'')
                    else alignment (cell_at ws (encodeAddress (?r + int i) (column_number c + j))))
               \<and> border (cell_at ?ws' (encodeAddress (?r + int i) (column_number c + j))) =
                   (if truthy (js_get ?style ''border'')
                    then border_literal (js_get ?style ''border'')
                    else border (cell_at ws (encodeAddress (?r + int i) (column_number c + j))))
               \<and> numFmt (cell_at ?ws' (encodeAddress (?r + int i) (column_number c + j))) =
                   (if truthy (js_get ?style ''numFmt'')
                    then js_get ?style ''numFmt''
                    else numFmt (cell_at ws (encodeAddress (?r + int i) (column_number c + j)))))"
    by (intro allI impI one) assumption
  have frame': "\<forall>a. (\<forall>i j vals. i < length rows \<and> rows ! i = JArr vals \<and> j < length vals \<longrightarrow>
                a \<noteq> encodeAddress (?r + int i) (column_number c + j))
            \<longrightarrow> cell_at ?ws' a = cell_at ws a"
    by (intro allI impI) (rule frame, assumption)
  have e1': "\<forall>e'. processRange ws (rd\<lparr>r_range := c # ds @ CHR '':'' # e'\<rparr>) = Inr ?ws'"
    using e1 by (rule allI)
  show ?thesis
    by (rule exI [of _ ?ws'])
       (rule conjI [OF flat conjI [OF all conjI [OF frame' conjI [OF e1' e2]]]])
qed

theorem processRange_writes_witness:
  "\<exists>ws'. processRange empty_worksheet
            \<lparr>r_range = ''A3:B9'', r_data = JArr [JArr [JStr ''Product'', JStr ''Qty''],
                                               JArr [JStr ''Widget'', JNum 5]],
             r_style = JObj [(''font'', JObj [(''bold'', JBool True)]),
                             (''numFmt'', JStr ''0.00'')]\<rparr> = Inr ws'
      \<and> cvalue (cell_at ws' ''A3'') = JStr ''Product''
      \<and> cvalue (cell_at ws' ''B3'') = JStr ''Qty''
      \<and> cvalue (cell_at ws' ''A4'') = JStr ''Widget''
      \<and> cvalue (cell_at ws' ''B4'') = JNum 5
      \<and> numFmt (cell_at ws' ''B4'') = JStr ''0.00''
      \<and> font (cell_at ws' ''A3'') =
          JObj [(''name'', JStr ''Calibri''), (''size'', JNum 11), (''bold'', JBool True),
                (''italic'', JBool False), (''underline'', JBool False),
                (''color'', JUndefined)]
      \<and> fill (cell_at ws' ''A3'') = JUndefined
      \<and> cell_at ws' ''C3'' = empty_cell
      \<and> cell_at ws' ''A5'' = empty_cell
      \<and> processRange empty_worksheet
            \<lparr>r_range = ''A3:Z1'', r_data = JArr [JArr [JStr ''Product'', JStr ''Qty''],
                                               JArr [JStr ''Widget'', JNum 5]],
             r_style = JObj [(''font'', JObj [(''bold'', JBool True)]),
                             (''numFmt'', JStr ''0.00'')]\<rparr> = Inr ws'
      \<and> processRange empty_worksheet
            \<lparr>r_range = ''A3'', r_data = JArr [JArr [JStr ''Product'', JStr ''Qty''],
                                            JArr [JStr ''Widget'', JNum 5]],
             r_style = JObj [(''font'', JObj [(''bold'', JBool True)]),
                             (''numFmt'', JStr ''0.00'')]\<rparr> = Inr ws'"
proof -
  let ?rows = "[JArr [JStr ''Product'', JStr ''Qty''], JArr [JStr ''Widget'', JNum 5]]"
  let ?style = "JObj [(''font'', JObj [(''bold'', JBool True)]), (''numFmt'', JStr ''0.00'')]"
  let ?font = "JObj [(''name'', JStr ''Calibri''), (''size'', JNum 11), (''bold'', JBool True),
                     (''italic'', JBool False), (''underline'', JBool False),
                     (''color'', JUndefined)]"
  let ?rd = "\<lparr>r_range = ''A3:B9'', r_data = JArr ?rows, r_style = ?style\<rparr>"
  have h1: "is_upper CHR ''A''" by (simp add: is_upper_def)
  have h2: "''3'' \<noteq> []" by simp
  have h3: "list_all is_digit ''3''" by (simp add: is_digit_def)
  have h4: "r_range ?rd = CHR ''A'' # ''3'' @ CHR '':'' # ''B9''" by simp
  have h5: "r_data ?rd = JArr ?rows" by simp
  have h6: "list_all (\<lambda>r. column_index CHR ''A'' + int (row_width r) \<le> 26) ?rows"
    by (simp add: row_width_def column_index_def)
  have p: "int (parse_digits ''3'') = 3" by (simp add: parse_digits_def)
  have cn: "column_number CHR ''A'' = 1" by (simp add: column_number_def)
  have enc: "encodeAddress 3 (Suc 0) = ''A3''" "encodeAddress 3 (Suc (Suc 0)) = ''B3''"
    "encodeAddress 4 (Suc 0) = ''A4''" "encodeAddress 4 (Suc (Suc 0)) = ''B4''"
    by code_simp+
  have f: "font_literal (JObj [(''bold'', JBool True)]) = Inr ?font"
    by (simp add: font_literal_def js_or_def inherited_style_keys)
  have ok: "applyCellStyle cell ?style =
      (cell\<lparr>font := ?font, fill := fill cell, alignment := alignment cell,
             border := border cell, numFmt := JStr ''0.00''\<rparr>, [])" for cell
    using applyCellStyle_succeeds [of ?style ?font cell "fill cell"] f
    by (simp add: inherited_style_keys)
  from processRange_writes [OF h1 h2 h3 h4 h5 h6, of empty_worksheet]
  obtain ws' where ws': "processRange empty_worksheet ?rd = Inr ws'"
    and c: "\<And>i j vals. i < length ?rows \<and> ?rows ! i = JArr vals \<and> j < length vals \<Longrightarrow>
        cvalue (cell_at ws' (encodeAddress (int (parse_digits ''3'') + int i)
                               (column_number CHR ''A'' + j))) =
          (if vals ! j = JUndefined then JNull else vals ! j)
        \<and> (snd (applyCellStyle
                  (set_value (vals ! j)
                     (cell_at empty_worksheet
                        (encodeAddress (int (parse_digits ''3'') + int i)
                           (column_number CHR ''A'' + j))))
                  ?style) = []
           \<longrightarrow> font_literal (JObj [(''bold'', JBool True)]) =
                 Inr (font (cell_at ws' (encodeAddress (int (parse_digits ''3'') + int i)
                                           (column_number CHR ''A'' + j))))
               \<and> fill (cell_at ws' (encodeAddress (int (parse_digits ''3'') + int i)
                                       (column_number CHR ''A'' + j))) =
                   fill (cell_at empty_worksheet
                          (encodeAddress (int (parse_digits ''3'') + int i)
                             (column_number CHR ''A'' + j)))
               \<and> numFmt (cell_at ws' (encodeAddress (int (parse_digits ''3'') + int i)
                                         (column_number CHR ''A'' + j))) = JStr ''0.00'')"
    and fr: "\<And>a. (\<forall>i j vals. i < length ?rows \<and> ?rows ! i = JArr vals \<and> j < length vals \<longrightarrow>
                a \<noteq> encodeAddress (int (parse_digits ''3'') + int i)
                      (column_number CHR ''A'' + j))
            \<Longrightarrow> cell_at ws' a = cell_at empty_worksheet a"
    and e1: "\<And>e'. processRange empty_worksheet (?rd\<lparr>r_range := CHR ''A'' # ''3'' @ CHR '':'' # e'\<rparr>)
              = Inr ws'"
    and e2: "processRange empty_worksheet (?rd\<lparr>r_range := CHR ''A'' # ''3''\<rparr>) = Inr ws'"
    by (simp add: inherited_style_keys) blast
  have a3: "cvalue (cell_at ws' ''A3'') = JStr ''Product''"
    "font (cell_at ws' ''A3'') = ?font" "fill (cell_at ws' ''A3'') = JUndefined"
    using c [of 0 "[JStr ''Product'', JStr ''Qty'']" 0] p cn enc ok f
    by (simp_all add: empty_worksheet_def empty_cell_def)
  have b3: "cvalue (cell_at ws' ''B3'') = JStr ''Qty''"
    using c [of 0 "[JStr ''Product'', JStr ''Qty'']" 1] p cn enc by simp
  have a4: "cvalue (cell_at ws' ''A4'') = JStr ''Widget''"
    using c [of 1 "[JStr ''Widget'', JNum 5]" 0] p cn enc by simp
  have b4: "cvalue (cell_at ws' ''B4'') = JNum 5" "numFmt (cell_at ws' ''B4'') = JStr ''0.00''"
    using c [of 1 "[JStr ''Widget'', JNum 5]" 1] p cn enc ok by simp_all
  have other: "a \<noteq> encodeAddress (int (parse_digits ''3'') + int i) (column_number CHR ''A'' + j)"
    if "a = ''C3'' \<or> a = ''A5''"
      and "i < length ?rows \<and> ?rows ! i = JArr vals \<and> j < length vals" for a i j vals
  proof -
    from that(2) consider "i = 0" "j = 0" | "i = 0" "j = 1" | "i = 1" "j = 0" | "i = 1" "j = 1"
      by (auto simp: less_Suc_eq numeral_2_eq_2)
    then show ?thesis
      using that(1) p cn enc by cases auto
  qed
  have "cell_at ws' ''C3'' = cell_at empty_worksheet ''C3''"
    by (rule fr) (use other [of "''C3''"] in blast)
  moreover have "cell_at ws' ''A5'' = cell_at empty_worksheet ''A5''"
    by (rule fr) (use other [of "''A5''"] in blast)
  ultimately have c3: "cell_at ws' ''C3'' = empty_cell" "cell_at ws' ''A5'' = empty_cell"
    by (simp_all add: empty_worksheet_def)
  have "processRange empty_worksheet (?rd\<lparr>r_range := ''A3:Z1''\<rparr>) = Inr ws'"
    using e1 [of "''Z1''"] by simp
  moreover have "processRange empty_worksheet (?rd\<lparr>r_range := ''A3''\<rparr>) = Inr ws'"
    using e2 by simp
  ultimately show ?thesis
    using ws' a3 b3 a4 b4 c3 by simp
qed

subsection \<open>Table write\<close>

lemma map_address_enumerate:
  "map (\<lambda>p. getCellAddress startCol r (int (fst p))) (enumerate 0 fs) =
     map (\<lambda>j. getCellAddress startCol r (int j)) [0..<length fs]"
  by (auto simp: enumerate_eq_zip intro!: nth_equalityI)

lemma distinct_grid_row:
  assumes "is_upper c" and "0 \<le> r" and "n \<le> 26"
  shows "distinct (map (\<lambda>j. getCellAddress (c # cs) r (int j)) [0..<n])"
proof -
  have "inj_on (\<lambda>j. getCellAddress (c # cs) r (int j)) (set [0..<n])"
  proof (rule inj_onI)
    fix j j'
    assume "j \<in> set [0..<n]" and "j' \<in> set [0..<n]"
      and e: "getCellAddress (c # cs) r (int j) = getCellAddress (c # cs) r (int j')"
    then have "j < 26" and "j' < 26" using assms(3) by simp_all
    then show "j = j'"
      using getCellAddress_inj [OF assms(1,2,2) _ _ e] by blast
  qed
  then show ?thesis
    by (simp add: distinct_map)
qed

lemma distinct_grid_writes:
  assumes "is_upper c" and "0 \<le> startRow" and "list_all (\<lambda>fs. length fs \<le> 26) fss"
  shows "distinct (map fst (grid_writes (c # cs) startRow fss))"
proof -
  let ?f = "\<lambda>ifs. map (\<lambda>j. getCellAddress (c # cs) (startRow + int (fst ifs)) (int j))
                    [0..<length (snd ifs)]"
  have w: "\<And>ifs. ifs \<in> set (enumerate 0 fss) \<Longrightarrow> length (snd ifs) \<le> 26"
    using assms(3) by (auto simp: list_all_iff in_set_enumerate_eq)
  have "distinct (concat (map ?f (enumerate 0 fss)))"
  proof (rule distinct_concat_map)
    show "distinct (enumerate 0 fss)" by (rule distinct_enumerate)
  next
    fix ifs assume "ifs \<in> set (enumerate 0 fss)"
    then show "distinct (?f ifs)"
      using distinct_grid_row [OF assms(1) _ w] assms(2) by simp
  next
    fix p q
    assume m: "p \<in> set (enumerate 0 fss)" "q \<in> set (enumerate 0 fss)" and ne: "p \<noteq> q"
    have i: "fst p \<noteq> fst q"
      using m ne by (auto simp: in_set_enumerate_eq prod_eq_iff)
    show "set (?f p) \<inter> set (?f q) = {}"
    proof (rule ccontr)
      assume "set (?f p) \<inter> set (?f q) \<noteq> {}"
      then obtain a where a: "a \<in> set (?f p)" "a \<in> set (?f q)" by blast
      from a(1) obtain j where j: "j < length (snd p)"
        "a = getCellAddress (c # cs) (startRow + int (fst p)) (int j)"
        by auto
      from a(2) obtain j' where j': "j' < length (snd q)"
        "a = getCellAddress (c # cs) (startRow + int (fst q)) (int j')"
        by auto
      have "j < 26" "j' < 26"
        using j(1) j'(1) w [OF m(1)] w [OF m(2)] by simp_all
      moreover have "0 \<le> startRow + int (fst p)" "0 \<le> startRow + int (fst q)"
        using assms(2) by simp_all
      moreover have "getCellAddress (c # cs) (startRow + int (fst p)) (int j)
          = getCellAddress (c # cs) (startRow + int (fst q)) (int j')"
        using j(2) j'(2) by simp
      ultimately have "startRow + int (fst p) = startRow + int (fst q)"
        using getCellAddress_inj [OF assms(1)] by blast
      with i show False by simp
    qed
  qed
  then show ?thesis
    by (simp add: grid_writes_def map_concat comp_def map_address_enumerate)
qed

lemma grid_writes_member:
  assumes "i < length fss" and "j < length (fss ! i)"
  shows "(getCellAddress startCol (startRow + int i) (int j), fss ! i ! j)
           \<in> set (grid_writes startCol startRow fss)"
proof -
  have 1: "(i, fss ! i) \<in> set (enumerate 0 fss)"
    using assms(1) by (simp add: in_set_enumerate_eq)
  have 2: "(j, fss ! i ! j) \<in> set (enumerate 0 (fss ! i))"
    using assms(2) by (simp add: in_set_enumerate_eq)
  show ?thesis
    unfolding grid_writes_def using 1 2 by force
qed

lemma cell_at_grid_writes:
  assumes "is_upper c" and "0 \<le> startRow" and "list_all (\<lambda>fs. length fs \<le> 26) fss"
    and "i < length fss" and "j < length (fss ! i)"
  shows "cell_at (foldl update_cell ws (grid_writes (c # cs) startRow fss))
           (getCellAddress (c # cs) (startRow + int i) (int j)) =
         fst ((fss ! i ! j) (cell_at ws (getCellAddress (c # cs) (startRow + int i) (int j))))"
proof -
  have d: "distinct (map fst (grid_writes (c # cs) startRow fss))"
    by (rule distinct_grid_writes [OF assms(1-3)])
  have "map_of (grid_writes (c # cs) startRow fss)
          (getCellAddress (c # cs) (startRow + int i) (int j)) = Some (fss ! i ! j)"
    using d grid_writes_member [OF assms(4,5)] by (rule map_of_is_SomeI)
  then show ?thesis
    using cell_at_foldl_update [OF d] by simp
qed

lemma fold_err_Inr:
  assumes "\<And>s x. x \<in> set xs \<Longrightarrow> f s x = Inr (g s x)"
  shows "fold_err f s xs = Inr (foldl g s xs)"
  using assms by (induction xs arbitrary: s) simp_all

lemma js_get_checked_Inr:
  "r \<noteq> JNull \<Longrightarrow> r \<noteq> JUndefined \<Longrightarrow> js_get_checked r k = Inr (js_get r k)"
  by (cases r) simp_all

lemma table_row_writes:
  assumes "snd ir \<noteq> JNull" and "snd ir \<noteq> JUndefined"
  shows "table_row startCol startRow tstyle headers ws ir =
     Inr (foldl update_cell ws
            (map (\<lambda>jh. (getCellAddress startCol (startRow + int (fst ir) + 1) (int (fst jh)),
                         body_cell tstyle (fst ir) (js_get (snd ir) (snd jh))))
               (enumerate 0 headers)))"
  unfolding table_row_def foldl_map
  by (rule fold_err_Inr) (simp add: js_get_checked_Inr [OF assms])

lemma grid_writes_Cons:
  "grid_writes startCol startRow (fs # fss) =
     map (\<lambda>jf. (getCellAddress startCol startRow (int (fst jf)), snd jf)) (enumerate 0 fs)
     @ grid_writes startCol (startRow + 1) fss"
  by (simp add: grid_writes_def enumerate_Suc_eq comp_def ac_simps)

lemma table_cells_writes:
  "grid_writes startCol startRow (table_cells tstyle headers rows) =
     map (\<lambda>jh. (getCellAddress startCol startRow (int (fst jh)), header_cell tstyle (snd jh)))
       (enumerate 0 headers)
     @ concat (map (\<lambda>ir. map (\<lambda>jh. (getCellAddress startCol (startRow + int (fst ir) + 1) (int (fst jh)),
                                      body_cell tstyle (fst ir) (js_get (snd ir) (snd jh))))
                            (enumerate 0 headers))
                 (enumerate 0 rows))"
proof -
  have "grid_writes startCol (startRow + 1)
          (map (\<lambda>ir. map (\<lambda>h. body_cell tstyle (fst ir) (js_get (snd ir) h)) headers) (enumerate 0 rows))
      = concat (map (\<lambda>ir. map (\<lambda>jh. (getCellAddress startCol (startRow + int (fst ir) + 1) (int (fst jh)),
                                      body_cell tstyle (fst ir) (js_get (snd ir) (snd jh))))
                            (enumerate 0 headers))
                 (enumerate 0 rows))"
    unfolding grid_writes_def
    by (rule arg_cong [where f = concat])
       (auto simp: enumerate_eq_zip ac_simps intro!: nth_equalityI)
  moreover have "map (\<lambda>jf. (getCellAddress startCol startRow (int (fst jf)), snd jf))
        (enumerate 0 (map (header_cell tstyle) headers)) =
      map (\<lambda>jh. (getCellAddress startCol startRow (int (fst jh)), header_cell tstyle (snd jh)))
        (enumerate 0 headers)"
    by (auto simp: enumerate_eq_zip intro!: nth_equalityI)
  ultimately show ?thesis
    by (simp add: table_cells_def grid_writes_Cons)
qed


lemma table_rows_writes:
  assumes "list_all (\<lambda>r. r \<noteq> JNull \<and> r \<noteq> JUndefined) rows"
  shows "fold_err (table_row startCol startRow tstyle headers) ws (enumerate 0 rows) =
     Inr (foldl update_cell ws
            (concat (map (\<lambda>ir. map (\<lambda>jh. (getCellAddress startCol (startRow + int (fst ir) + 1) (int (fst jh)),
                                      body_cell tstyle (fst ir) (js_get (snd ir) (snd jh))))
                            (enumerate 0 headers))
                 (enumerate 0 rows))))"
proof -
  have "fold_err (table_row startCol startRow tstyle headers) ws (enumerate 0 rows) =
      Inr (foldl (\<lambda>w ir. foldl update_cell w
              (map (\<lambda>jh. (getCellAddress startCol (startRow + int (fst ir) + 1) (int (fst jh)),
                           body_cell tstyle (fst ir) (js_get (snd ir) (snd jh))))
                 (enumerate 0 headers)))
            ws (enumerate 0 rows))"
  proof (rule fold_err_Inr)
    fix s ir
    assume "ir \<in> set (enumerate 0 rows)"
    then have "fst ir < length rows" and "rows ! fst ir = snd ir"
      by (simp_all add: in_set_enumerate_eq)
    then have "snd ir \<in> set rows"
      using nth_mem by fastforce
    then have "snd ir \<noteq> JNull" "snd ir \<noteq> JUndefined"
      using assms by (auto simp: list_all_iff)
    then show "table_row startCol startRow tstyle headers s ir =
        Inr (foldl update_cell s
              (map (\<lambda>jh. (getCellAddress startCol (startRow + int (fst ir) + 1) (int (fst jh)),
                           body_cell tstyle (fst ir) (js_get (snd ir) (snd jh))))
                 (enumerate 0 headers)))"
      by (rule table_row_writes)
  qed
  then show ?thesis
    by (simp add: foldl_concat_map)
qed

lemma fold_err_ok:
  assumes "\<And>s x. x \<in> set xs \<Longrightarrow> \<exists>s'. f s x = Inr s'"
  shows "\<exists>s'. fold_err f s xs = Inr s'"
  using assms
proof (induction xs arbitrary: s)
  case Nil
  then show ?case by simp
next
  case (Cons x xs)
  obtain s1 where "f s x = Inr s1"
    using Cons.prems [of x s] by auto
  then show ?case
    using Cons.IH [of s1] Cons.prems by auto
qed

lemma cell_at_foldl_update_other:
  "a \<notin> fst ` set afs \<Longrightarrow> cell_at (foldl update_cell ws afs) a = cell_at ws a"
  by (induction afs arbitrary: ws) (auto simp: cell_at_update_cell)

lemma grid_writes_addresses:
  assumes "a \<in> fst ` set (grid_writes startCol startRow fss)"
  shows "\<exists>i j. i < length fss \<and> j < length (fss ! i)
           \<and> a = getCellAddress startCol (startRow + int i) (int j)"
proof -
  from assms obtain ifs jf where 1: "ifs \<in> set (enumerate 0 fss)"
    and 2: "jf \<in> set (enumerate 0 (snd ifs))"
    and a: "a = getCellAddress startCol (startRow + int (fst ifs)) (int (fst jf))"
    by (auto simp: grid_writes_def)
  from 1 have "fst ifs < length fss" "snd ifs = fss ! fst ifs"
    by (auto simp: in_set_enumerate_eq)
  moreover from 2 have "fst jf < length (snd ifs)"
    by (auto simp: in_set_enumerate_eq)
  ultimately show ?thesis
    using a by (intro exI [of _ "fst ifs"] exI [of _ "fst jf"]) simp
qed

text \<open>A write that leaves the cell as it is changes nothing.\<close>

lemma foldl_update_cell_trivial:
  assumes "\<And>a f. (a, f) \<in> set afs \<Longrightarrow> f (cell_at ws a) = (cell_at ws a, [])"
  shows "foldl update_cell ws afs = ws"
  using assms
proof (induction afs)
  case Nil
  then show ?case by simp
next
  case (Cons af afs)
  obtain a f where af: "af = (a, f)" by (cases af)
  have "f (cell_at ws a) = (cell_at ws a, [])"
    using Cons.prems [of a f] by (simp add: af)
  then have "update_cell ws af = ws"
    by (simp add: update_cell_def af)
  then show ?case
    using Cons by simp
qed

lemma store_writes_member:
  assumes "(a, f) \<in> set (store_writes row col vss)"
  shows "\<exists>i j. i < length vss \<and> j < length (vss ! i)
           \<and> a = encodeAddress (int (row + i)) (col + j)
           \<and> f = (\<lambda>c. (set_value (vss ! i ! j) c, []))"
proof -
  from assms obtain ivs jv where 1: "ivs \<in> set (enumerate 0 vss)"
    and 2: "jv \<in> set (enumerate 0 (snd ivs))"
    and a: "a = encodeAddress (int (row + fst ivs)) (col + fst jv)"
    and f: "f = (\<lambda>c. (set_value (snd jv) c, []))"
    by (auto simp: store_writes_def)
  from 1 have "fst ivs < length vss" "snd ivs = vss ! fst ivs"
    by (auto simp: in_set_enumerate_eq)
  moreover from 2 have "fst jv < length (snd ivs)" "snd jv = snd ivs ! fst jv"
    by (auto simp: in_set_enumerate_eq)
  ultimately show ?thesis
    using a f by (intro exI [of _ "fst ivs"] exI [of _ "fst jv"]) simp
qed

text \<open>
  \<^verbatim>\<open>addTable\<close> on a sheet whose cells already hold the names of the columns and the
  values of the rows: when it returns, the cells are as they were; and it returns when
  the table is on a row and a column of the sheet and every column has a name.
\<close>

lemma addTable_cells:
  assumes "decodeAddress ref = Inr (Some (cl, col), Some (rw, row))"
    and "\<And>i j. i < Suc (length rows) \<Longrightarrow> j < length ((map JStr columns # rows) ! i) \<Longrightarrow>
           cvalue (cell_at ws (encodeAddress (int (row + i)) (col + j))) =
             (if (map JStr columns # rows) ! i ! j = JUndefined then JNull
              else (map JStr columns # rows) ! i ! j)"
  shows "addTable name ref columns rows ws = Inr ws' \<Longrightarrow> cell_at ws' = cell_at ws"
    and "0 < row \<Longrightarrow> 0 < col \<Longrightarrow> 1 \<le> col + length columns - 1 \<Longrightarrow>
         col + length columns - 1 \<le> 16384 \<Longrightarrow> [] \<notin> set columns \<Longrightarrow>
         \<exists>ws'. addTable name ref columns rows ws = Inr ws'"
proof -
  have st: "foldl update_cell ws (store_writes row col (map JStr columns # rows)) = ws"
  proof (rule foldl_update_cell_trivial)
    fix a f
    assume "(a, f) \<in> set (store_writes row col (map JStr columns # rows))"
    from store_writes_member [OF this]
    obtain i j where i: "i < Suc (length rows)" "j < length ((map JStr columns # rows) ! i)"
      and a: "a = encodeAddress (int (row + i)) (col + j)"
      and f: "f = (\<lambda>c. (set_value ((map JStr columns # rows) ! i ! j) c, []))"
      by auto
    have "set_value ((map JStr columns # rows) ! i ! j) (cell_at ws a) = cell_at ws a"
      using assms(2) [OF i] by (simp add: set_value_def a)
    then show "f (cell_at ws a) = (cell_at ws a, [])"
      by (simp add: f)
  qed
  show "cell_at ws' = cell_at ws" if "addTable name ref columns rows ws = Inr ws'"
    using that assms(1)
    by (auto simp: addTable_def Let_def st split: if_splits)
  show "\<exists>ws'. addTable name ref columns rows ws = Inr ws'"
    if "0 < row" "0 < col" "1 \<le> col + length columns - 1"
      "col + length columns - 1 \<le> 16384" "[] \<notin> set columns"
    using that assms(1)
    by (auto simp: addTable_def Let_def list_ex_iff)
qed

lemma fold_err_collect:
  assumes "\<And>x. x \<in> set xs \<Longrightarrow> f x = Inr (g x)"
  shows "fold_err (\<lambda>acc x. case f x of Inl e \<Rightarrow> Inl e | Inr v \<Rightarrow> Inr (acc @ [v])) acc xs
           = Inr (acc @ map g xs)"
  using assms by (induction xs arbitrary: acc) simp_all

text \<open>The registration of a named table, once the end column is found, is \<^verbatim>\<open>addTable\<close>
  on the values of the rows under the headers.\<close>

lemma register_table_eq:
  assumes "match_run is_upper (getCellAddress startCol 1 (int (length headers) - 1))
             = Some endCol"
    and "list_all (\<lambda>r. r \<noteq> JNull \<and> r \<noteq> JUndefined) rows"
  shows "register_table name startCell startCol startRow headers rows ws =
           addTable name
             (startCell @ '':'' @ endCol @ number_toString (startRow + int (length rows)))
             headers (map (\<lambda>row. map (js_get row) headers) rows) ws"
proof -
  have inner: "fold_err (\<lambda>vs h. case js_get_checked row h of
                                  Inl e \<Rightarrow> Inl e | Inr v \<Rightarrow> Inr (vs @ [v])) [] headers
      = Inr (map (js_get row) headers)" if "row \<in> set rows" for row
  proof -
    from that have r: "row \<noteq> JNull" "row \<noteq> JUndefined"
      using assms(2) by (auto simp: list_all_iff)
    show ?thesis
      using fold_err_collect [of headers "js_get_checked row" "js_get row" "[]"]
      by (simp add: js_get_checked_Inr [OF r])
  qed
  have "fold_err
          (\<lambda>acc row.
             case fold_err
                    (\<lambda>vs h. case js_get_checked row h of
                               Inl e \<Rightarrow> Inl e | Inr v \<Rightarrow> Inr (vs @ [v]))
                    [] headers of
               Inl e \<Rightarrow> Inl e
             | Inr vs \<Rightarrow> Inr (acc @ [vs]))
          [] rows = Inr ([] @ map (\<lambda>row. map (js_get row) headers) rows)"
    by (rule fold_err_collect) (rule inner)
  then show ?thesis
    using assms(1) by (simp add: register_table_def)
qed

lemma length_own_keys: "length (own_keys kvs) = length kvs"
  using sum_length_filter_compl [of is_array_index "map fst kvs"]
  by (simp add: own_keys_def Let_def)

lemma set_own_keys: "set (own_keys kvs) = fst ` set kvs"
  by (auto simp: own_keys_def Let_def)

lemma own_keys_insertion_order:
  "list_all (\<lambda>k. \<not> is_array_index k) (map fst kvs) \<Longrightarrow> own_keys kvs = map fst kvs"
  by (simp add: own_keys_def Let_def list_all_iff filter_empty_conv)

lemma header_cell_cvalue: "cvalue (fst (header_cell tstyle h c)) = JStr h"
  by (simp add: header_cell_def styled_cvalue set_value_def)

lemma body_cell_cvalue:
  "cvalue (fst (body_cell tstyle i v c)) = (if v = JUndefined then JNull else v)"
  by (simp add: body_cell_def styled_cvalue set_value_def Let_def)


text \<open>The body of \<^verbatim>\<open>processTable\<close>, for data whose first row has keys and whose rows are
  not \<^verbatim>\<open>null\<close>: the cell writes, then the registration if the table has a name.\<close>

lemma table_body_eq:
  assumes "t_data td = JArr (row0 # rest)"
    and "Object_keys row0 = Inr headers"
    and "parse_anchor (table_startCell td) = Inr (startRow, startCol)"
    and "list_all (\<lambda>r. r \<noteq> JNull \<and> r \<noteq> JUndefined) (row0 # rest)"
  shows "table_body ws td =
      (case t_name td of
         None \<Rightarrow>
           Inr (foldl update_cell ws
                  (grid_writes startCol startRow (table_cells (t_style td) headers (row0 # rest))))
       | Some name \<Rightarrow>
           if name = []
           then Inr (foldl update_cell ws
                  (grid_writes startCol startRow (table_cells (t_style td) headers (row0 # rest))))
           else register_table name (table_startCell td) startCol startRow headers (row0 # rest)
                  (foldl update_cell ws
                     (grid_writes startCol startRow
                        (table_cells (t_style td) headers (row0 # rest)))))"
proof -
  let ?hw = "map (\<lambda>jh. (getCellAddress startCol startRow (int (fst jh)),
                         header_cell (t_style td) (snd jh))) (enumerate 0 headers)"
  let ?bw = "concat (map (\<lambda>ir. map (\<lambda>jh. (getCellAddress startCol (startRow + int (fst ir) + 1) (int (fst jh)),
                                      body_cell (t_style td) (fst ir) (js_get (snd ir) (snd jh))))
                            (enumerate 0 headers))
                 (enumerate 0 (row0 # rest)))"
  let ?ws1 = "foldl (\<lambda>w jh. update_cell w
                 (getCellAddress startCol startRow (int (fst jh)),
                  header_cell (t_style td) (snd jh)))
               ws (enumerate 0 headers)"
  let ?ws2 = "foldl update_cell ws (grid_writes startCol startRow
                (table_cells (t_style td) headers (row0 # rest)))"
  have h: "?ws1 = foldl update_cell ws ?hw"
    by (simp add: foldl_map)
  have b: "fold_err (table_row startCol startRow (t_style td) headers) ?ws1
             (enumerate 0 (row0 # rest)) = Inr (foldl update_cell ?ws1 ?bw)"
    by (rule table_rows_writes [OF assms(4)])
  have "foldl update_cell ?ws1 ?bw = foldl update_cell ws (?hw @ ?bw)"
    by (simp only: h foldl_append)
  then have w2: "foldl update_cell ?ws1 ?bw = ?ws2"
    by (simp only: table_cells_writes)
  show ?thesis
    using assms(1,2,3) b w2 by (simp add: table_body_def Let_def)
qed

lemma table_cells_nth_Suc:
  "i < length rows \<Longrightarrow>
   table_cells tstyle hs rows ! Suc i = map (\<lambda>h. body_cell tstyle i (js_get (rows ! i) h)) hs"
  by (simp add: table_cells_def nth_enumerate_eq)

text \<open>
  The cells after the writes of a table with at most 26 columns, at the addresses that
  the resolver gives; every other cell is as it was.
\<close>

lemma table_writes_cells:
  assumes "is_upper c" and "0 \<le> r" and "length hs \<le> 26"
  shows "j < length hs \<Longrightarrow>
           cell_at (foldl update_cell ws (grid_writes (c # cs) r (table_cells tstyle hs rows)))
             (getCellAddress (c # cs) r (int j)) =
           fst (header_cell tstyle (hs ! j) (cell_at ws (getCellAddress (c # cs) r (int j))))"
    and "i < length rows \<Longrightarrow> j < length hs \<Longrightarrow>
           cell_at (foldl update_cell ws (grid_writes (c # cs) r (table_cells tstyle hs rows)))
             (getCellAddress (c # cs) (r + int i + 1) (int j)) =
           fst (body_cell tstyle i (js_get (rows ! i) (hs ! j))
                  (cell_at ws (getCellAddress (c # cs) (r + int i + 1) (int j))))"
    and "(\<And>i j. i < Suc (length rows) \<Longrightarrow> j < length hs \<Longrightarrow>
             a \<noteq> getCellAddress (c # cs) (r + int i) (int j)) \<Longrightarrow>
           cell_at (foldl update_cell ws (grid_writes (c # cs) r (table_cells tstyle hs rows))) a
             = cell_at ws a"
proof -
  let ?fss = "table_cells tstyle hs rows"
  have len: "length ?fss = Suc (length rows)"
    by (simp add: table_cells_def)
  have lens: "length (?fss ! i) = length hs" if "i < Suc (length rows)" for i
    using that by (cases i) (simp_all add: table_cells_def nth_enumerate_eq)
  have w: "list_all (\<lambda>fs. length fs \<le> 26) ?fss"
    using assms(3) by (simp add: table_cells_def list_all_iff)
  show "cell_at (foldl update_cell ws (grid_writes (c # cs) r ?fss))
             (getCellAddress (c # cs) r (int j)) =
           fst (header_cell tstyle (hs ! j) (cell_at ws (getCellAddress (c # cs) r (int j))))"
    if "j < length hs"
  proof -
    have "0 < length ?fss" "j < length (?fss ! 0)"
      using that by (simp_all add: table_cells_def)
    from cell_at_grid_writes [OF assms(1,2) w this, of ws cs]
    show ?thesis
      using that by (simp add: table_cells_def)
  qed
  show "cell_at (foldl update_cell ws (grid_writes (c # cs) r ?fss))
             (getCellAddress (c # cs) (r + int i + 1) (int j)) =
           fst (body_cell tstyle i (js_get (rows ! i) (hs ! j))
                  (cell_at ws (getCellAddress (c # cs) (r + int i + 1) (int j))))"
    if "i < length rows" and "j < length hs"
  proof -
    have e: "?fss ! Suc i = map (\<lambda>h. body_cell tstyle i (js_get (rows ! i) h)) hs"
      using that(1) by (rule table_cells_nth_Suc)
    have "Suc i < length ?fss" "j < length (?fss ! Suc i)"
      using that len by (simp_all add: e)
    from cell_at_grid_writes [OF assms(1,2) w this, of ws cs]
    show ?thesis
      using that by (simp add: e ac_simps)
  qed
  show "cell_at (foldl update_cell ws (grid_writes (c # cs) r ?fss)) a = cell_at ws a"
    if fr: "\<And>i j. i < Suc (length rows) \<Longrightarrow> j < length hs \<Longrightarrow>
             a \<noteq> getCellAddress (c # cs) (r + int i) (int j)"
  proof (rule cell_at_foldl_update_other)
    show "a \<notin> fst ` set (grid_writes (c # cs) r ?fss)"
    proof
      assume "a \<in> fst ` set (grid_writes (c # cs) r ?fss)"
      from grid_writes_addresses [OF this]
      obtain i j where i: "i < length ?fss" "j < length (?fss ! i)"
        and a: "a = getCellAddress (c # cs) (r + int i) (int j)"
        by blast
      from i have "i < Suc (length rows)" "j < length hs"
        using len lens by simp_all
      from fr [OF this] a show False by simp
    qed
  qed
qed

text \<open>A table without a name: the writer returns, and the cells are those of the writes.\<close>

lemma processTable_cells:
  assumes "letters \<noteq> []" and "list_all is_upper letters"
    and "ds \<noteq> []" and "list_all is_digit ds"
    and "table_startCell td = letters @ ds"
    and "t_data td = JArr (JObj kvs0 # rest)"
    and "list_all (\<lambda>r. r \<noteq> JNull \<and> r \<noteq> JUndefined) rest"
    and "length kvs0 \<le> 26"
    and "t_name td = None \<or> t_name td = Some []"
  shows "\<exists>ws'. processTable ws td = Inr ws'
     \<and> (\<forall>j. j < length kvs0 \<longrightarrow>
           cell_at ws' (getCellAddress letters (int (parse_digits ds)) (int j)) =
             fst (header_cell (t_style td) (own_keys kvs0 ! j)
                    (cell_at ws (getCellAddress letters (int (parse_digits ds)) (int j)))))
     \<and> (\<forall>i j. i < Suc (length rest) \<and> j < length kvs0 \<longrightarrow>
           cell_at ws' (getCellAddress letters (int (parse_digits ds) + int i + 1) (int j)) =
             fst (body_cell (t_style td) i (js_get ((JObj kvs0 # rest) ! i) (own_keys kvs0 ! j))
                    (cell_at ws (getCellAddress letters (int (parse_digits ds) + int i + 1) (int j)))))
     \<and> (\<forall>a. (\<forall>i j. i < Suc (Suc (length rest)) \<and> j < length kvs0 \<longrightarrow>
                a \<noteq> getCellAddress letters (int (parse_digits ds) + int i) (int j))
            \<longrightarrow> cell_at ws' a = cell_at ws a)"
proof -
  let ?r = "int (parse_digits ds)"
  let ?rows = "JObj kvs0 # rest"
  let ?hs = "own_keys kvs0"
  let ?ws2 = "foldl update_cell ws (grid_writes letters ?r (table_cells (t_style td) ?hs ?rows))"
  obtain c cs where l: "letters = c # cs" and u: "is_upper c"
    using assms(1,2) by (cases letters) auto
  have pa: "parse_anchor (table_startCell td) = Inr (?r, letters)"
    using parse_anchor_valid [OF assms(1-4)] assms(5) by simp
  have nn: "list_all (\<lambda>r. r \<noteq> JNull \<and> r \<noteq> JUndefined) ?rows"
    using assms(7) by simp
  have "table_body ws td = Inr ?ws2"
    using table_body_eq [OF assms(6) _ pa nn, of ?hs ws] assms(9) by auto
  then have b: "processTable ws td = Inr ?ws2"
    by (simp add: processTable_def)
  have hl: "length ?hs \<le> 26" using assms(8) by (simp add: length_own_keys)
  have r0: "0 \<le> ?r" by simp
  note tw = table_writes_cells [OF u r0 hl, where cs = cs and ws = ws
      and tstyle = "t_style td" and rows = ?rows, folded l]
  have hd: "\<forall>j. j < length kvs0 \<longrightarrow>
      cell_at ?ws2 (getCellAddress letters ?r (int j)) =
      fst (header_cell (t_style td) (?hs ! j) (cell_at ws (getCellAddress letters ?r (int j))))"
    using tw(1) by (simp add: length_own_keys)
  have bd: "\<forall>i j. i < Suc (length rest) \<and> j < length kvs0 \<longrightarrow>
      cell_at ?ws2 (getCellAddress letters (?r + int i + 1) (int j)) =
      fst (body_cell (t_style td) i (js_get (?rows ! i) (?hs ! j))
             (cell_at ws (getCellAddress letters (?r + int i + 1) (int j))))"
    using tw(2) by (simp add: length_own_keys)
  have fr: "\<forall>a. (\<forall>i j. i < Suc (Suc (length rest)) \<and> j < length kvs0 \<longrightarrow>
                a \<noteq> getCellAddress letters (?r + int i) (int j))
            \<longrightarrow> cell_at ?ws2 a = cell_at ws a"
  proof (intro allI impI)
    fix a
    assume h: "\<forall>i j. i < Suc (Suc (length rest)) \<and> j < length kvs0 \<longrightarrow>
                a \<noteq> getCellAddress letters (?r + int i) (int j)"
    show "cell_at ?ws2 a = cell_at ws a"
      by (rule tw(3)) (use h in \<open>simp add: length_own_keys\<close>)
  qed
  show ?thesis
    by (rule exI [of _ ?ws2]) (rule conjI [OF b conjI [OF hd conjI [OF bd fr]]])
qed

lemma applyCellStyle_default_header:
  "applyCellStyle c default_header_style =
     (c, [''Style application failed: color.replace is not a function''])"
  by (simp add: applyCellStyle_def style_body_def default_header_style_def font_literal_def
      normalizeColor_def inherited_style_keys)

lemma header_cell_default:
  "\<not> truthy (js_get tstyle ''header'') \<Longrightarrow>
   header_cell tstyle h c =
     (set_value (JStr h) c, [''Style application failed: color.replace is not a function''])"
  by (simp add: header_cell_def styled_def applyCellStyle_default_header)

text \<open>
  C5. The claim holds for a header sub-style that is given, for the body sub-style and for
  the alternate-row sub-style; the default header style is not applied. The default that
  \<^verbatim>\<open>processTable\<close> passes gives its colours as objects \<^verbatim>\<open>{ argb: ... }\<close>, on which
  \<^verbatim>\<open>normalizeColor\<close> throws: \<^verbatim>\<open>applyCellStyle\<close> logs the warning and leaves any cell as
  it was. In a table with a header Product and no header sub-style, the header cell A1
  has its value and neither font, fill nor alignment.
\<close>

theorem processTable_default_header_not_applied:
  "applyCellStyle c default_header_style =
     (c, [''Style application failed: color.replace is not a function''])
   \<and> (case processTable empty_worksheet
          \<lparr>t_name = None, t_range = Some ''A1'',
           t_data = JArr [JObj [(''Product'', JStr ''Widget''), (''Q1'', JNum 5)]],
           t_style = JUndefined\<rparr> of
        Inl e \<Rightarrow> False
      | Inr ws' \<Rightarrow>
          cvalue (cell_at ws' ''A1'') = JStr ''Product''
          \<and> font (cell_at ws' ''A1'') = JUndefined
          \<and> fill (cell_at ws' ''A1'') = JUndefined
          \<and> alignment (cell_at ws' ''A1'') = JUndefined)"
proof -
  let ?kvs = "[(''Product'', JStr ''Widget''), (''Q1'', JNum 5)]"
  let ?td = "\<lparr>t_name = None, t_range = Some ''A1'', t_data = JArr [JObj ?kvs],
              t_style = JUndefined\<rparr>"
  have h1: "''A'' \<noteq> []" and h3: "''1'' \<noteq> []" by simp_all
  have h2: "list_all is_upper ''A''" by (simp add: is_upper_def)
  have h4: "list_all is_digit ''1''" by (simp add: is_digit_def)
  have h5: "table_startCell ?td = ''A'' @ ''1''"
    by (simp add: table_startCell_def split_first_def)
  have h6: "t_data ?td = JArr (JObj ?kvs # [])" by simp
  have h7: "list_all (\<lambda>r. r \<noteq> JNull \<and> r \<noteq> JUndefined) []" by simp
  have h8: "length ?kvs \<le> 26" by simp
  have h9: "t_name ?td = None \<or> t_name ?td = Some []" by simp
  have k: "own_keys ?kvs = [''Product'', ''Q1'']"
    by (simp add: own_keys_def is_array_index_def is_digit_def)
  have p: "int (parse_digits ''1'') = 1" by (simp add: parse_digits_def)
  have a: "getCellAddress ''A'' 1 0 = ''A1''"
    by code_simp
  from processTable_cells [OF h1 h2 h3 h4 h5 h6 h7 h8 h9, of empty_worksheet]
  obtain ws' where ws': "processTable empty_worksheet ?td = Inr ws'"
    and c: "\<And>j. j < length ?kvs \<Longrightarrow>
          cell_at ws' (getCellAddress ''A'' (int (parse_digits ''1'')) (int j)) =
            fst (header_cell (t_style ?td) (own_keys ?kvs ! j)
                   (cell_at empty_worksheet (getCellAddress ''A'' (int (parse_digits ''1'')) (int j))))"
    by blast
  have "cell_at ws' ''A1'' = set_value (JStr ''Product'') empty_cell"
    using c [of 0] by (simp add: p a k header_cell_default empty_worksheet_def)
  then show ?thesis
    using ws' by (simp add: applyCellStyle_default_header set_value_def empty_cell_def)
qed

text \<open>
  The cells after the writes of a table whose anchor column is one letter and whose
  columns do not reach beyond column Z, at their addresses in the sheet.
\<close>

lemma table_writes_encode:
  assumes "is_upper c" and "0 \<le> r" and "column_index c + int (length hs) \<le> 26"
  shows "j < length hs \<Longrightarrow>
           cell_at (foldl update_cell ws (grid_writes [c] r (table_cells tstyle hs rows)))
             (encodeAddress r (column_number c + j)) =
           fst (header_cell tstyle (hs ! j) (cell_at ws (encodeAddress r (column_number c + j))))"
    and "i < length rows \<Longrightarrow> j < length hs \<Longrightarrow>
           cell_at (foldl update_cell ws (grid_writes [c] r (table_cells tstyle hs rows)))
             (encodeAddress (r + int i + 1) (column_number c + j)) =
           fst (body_cell tstyle i (js_get (rows ! i) (hs ! j))
                  (cell_at ws (encodeAddress (r + int i + 1) (column_number c + j))))"
    and "(\<And>i j. i < Suc (length rows) \<Longrightarrow> j < length hs \<Longrightarrow>
             a \<noteq> encodeAddress (r + int i) (column_number c + j)) \<Longrightarrow>
           cell_at (foldl update_cell ws (grid_writes [c] r (table_cells tstyle hs rows))) a
             = cell_at ws a"
proof -
  note cn = column_number_upper [OF assms(1)]
  have hl: "length hs \<le> 26"
    using assms(3) cn by simp
  have enc: "getCellAddress [c] row (int j) = encodeAddress row (column_number c + j)"
    if "j < length hs" for row j
  proof (rule getCellAddress_encodeAddress [OF assms(1)])
    show "column_number c + j \<le> 26"
      using that assms(3) cn by simp
  qed
  note tw = table_writes_cells [OF assms(1,2) hl, where cs = "[]" and ws = ws
      and tstyle = tstyle and rows = rows]
  show "cell_at (foldl update_cell ws (grid_writes [c] r (table_cells tstyle hs rows)))
             (encodeAddress r (column_number c + j)) =
           fst (header_cell tstyle (hs ! j) (cell_at ws (encodeAddress r (column_number c + j))))"
    if "j < length hs"
    using tw(1) [OF that] by (simp only: enc [OF that])
  show "cell_at (foldl update_cell ws (grid_writes [c] r (table_cells tstyle hs rows)))
             (encodeAddress (r + int i + 1) (column_number c + j)) =
           fst (body_cell tstyle i (js_get (rows ! i) (hs ! j))
                  (cell_at ws (encodeAddress (r + int i + 1) (column_number c + j))))"
    if "i < length rows" and "j < length hs"
    using tw(2) [OF that] by (simp only: enc [OF that(2)])
  show "cell_at (foldl update_cell ws (grid_writes [c] r (table_cells tstyle hs rows))) a
             = cell_at ws a"
    if fr: "\<And>i j. i < Suc (length rows) \<Longrightarrow> j < length hs \<Longrightarrow>
             a \<noteq> encodeAddress (r + int i) (column_number c + j)"
  proof (rule tw(3))
    fix i j
    assume "i < Suc (length rows)" and j: "j < length hs"
    from fr [OF this] show "a \<noteq> getCellAddress [c] (r + int i) (int j)"
      by (simp add: enc [OF j])
  qed
qed

text \<open>
  The registration of a named table under such an anchor: \<^verbatim>\<open>addTable\<close> stores the names
  and the values in the cells that already hold them.
\<close>

lemma register_table_cells:
  assumes "is_upper c" and "ds \<noteq> []" and "list_all is_digit ds"
    and "column_index c + int (length hs) \<le> 26"
    and "list_all (\<lambda>r. r \<noteq> JNull \<and> r \<noteq> JUndefined) rows"
  shows "register_table name (c # ds) [c] (int (parse_digits ds)) hs rows
           (foldl update_cell ws
              (grid_writes [c] (int (parse_digits ds)) (table_cells tstyle hs rows))) = Inr ws'
         \<Longrightarrow> cell_at ws' =
               cell_at (foldl update_cell ws
                 (grid_writes [c] (int (parse_digits ds)) (table_cells tstyle hs rows)))"
    and "0 < parse_digits ds \<Longrightarrow> hs \<noteq> [] \<Longrightarrow> [] \<notin> set hs \<Longrightarrow>
         \<exists>ws'. register_table name (c # ds) [c] (int (parse_digits ds)) hs rows
                 (foldl update_cell ws
                    (grid_writes [c] (int (parse_digits ds)) (table_cells tstyle hs rows)))
               = Inr ws'"
proof -
  let ?r = "int (parse_digits ds)"
  let ?ws2 = "foldl update_cell ws (grid_writes [c] ?r (table_cells tstyle hs rows))"
  let ?rs = "map (\<lambda>row. map (js_get row) hs) rows"
  note cn = column_number_upper [OF assms(1)]
  have r0: "0 \<le> ?r" by simp
  note te = table_writes_encode [OF assms(1) r0 assms(4), where ws = ws and tstyle = tstyle
      and rows = rows]
  have dec: "decodeAddress ((c # ds) @ '':'' @ endCol @ endRow) =
      Inr (Some ([c], column_number c), Some (ds, parse_digits ds))" for endCol endRow
    using decodeAddress_anchor [OF assms(1-3), of "CHR '':'' # endCol @ endRow"] by simp
  have triv: "cvalue (cell_at ?ws2 (encodeAddress (int (parse_digits ds + i)) (column_number c + j))) =
             (if (map JStr hs # ?rs) ! i ! j = JUndefined then JNull
              else (map JStr hs # ?rs) ! i ! j)"
    if "i < Suc (length ?rs)" and "j < length ((map JStr hs # ?rs) ! i)" for i j
  proof (cases i)
    case 0
    with that(2) have j: "j < length hs" by simp
    show ?thesis
      using te(1) [OF j] j by (simp add: 0 header_cell_cvalue)
  next
    case (Suc i')
    with that have i': "i' < length rows" and j: "j < length hs" by simp_all
    have eq: "int (parse_digits ds + i) = ?r + int i' + 1"
      by (simp add: Suc)
    have v: "(map JStr hs # ?rs) ! i ! j = js_get (rows ! i') (hs ! j)"
      using i' j by (simp add: Suc)
    have "cvalue (cell_at ?ws2 (encodeAddress (?r + int i' + 1) (column_number c + j))) =
        (if js_get (rows ! i') (hs ! j) = JUndefined then JNull
         else js_get (rows ! i') (hs ! j))"
      by (simp only: te(2) [OF i' j] body_cell_cvalue)
    then show ?thesis
      unfolding eq v .
  qed
  have reg: "register_table name (c # ds) [c] ?r hs rows ?ws2 =
      addTable name ((c # ds) @ '':'' @ endCol @ number_toString (?r + int (length rows)))
        hs ?rs ?ws2"
    if "match_run is_upper (getCellAddress [c] 1 (int (length hs) - 1)) = Some endCol"
    for endCol
    using register_table_eq [OF that assms(5)] by simp
  show "cell_at ws' = cell_at ?ws2"
    if ok: "register_table name (c # ds) [c] ?r hs rows ?ws2 = Inr ws'"
  proof (cases "match_run is_upper (getCellAddress [c] 1 (int (length hs) - 1))")
    case None
    with ok show ?thesis by (simp add: register_table_def)
  next
    case (Some endCol)
    from ok reg [OF Some]
    have "addTable name ((c # ds) @ '':'' @ endCol @ number_toString (?r + int (length rows)))
        hs ?rs ?ws2 = Inr ws'"
      by simp
    moreover note addTable_cells(1) [OF dec [of endCol "number_toString (?r + int (length rows))"],
        where rows = ?rs and columns = hs and ws = ?ws2 and name = name and ws' = ws']
    ultimately show ?thesis
      using triv by blast
  qed
  show "\<exists>ws'. register_table name (c # ds) [c] ?r hs rows ?ws2 = Inr ws'"
    if "0 < parse_digits ds" and "hs \<noteq> []" and "[] \<notin> set hs"
  proof -
    have "0 \<le> int (length hs) - 1"
      using that(2) by (cases hs) simp_all
    then have "getCellAddress [c] 1 (int (length hs) - 1) =
        char_of (65 + (column_index c + (int (length hs) - 1)) mod 26) # number_toString 1"
      by (rule getCellAddress_nonneg [OF assms(1)])
    moreover have "is_upper (char_of (65 + (column_index c + (int (length hs) - 1)) mod 26))"
      by (rule column_letter_upper(1)) simp_all
    ultimately obtain endCol where e:
      "match_run is_upper (getCellAddress [c] 1 (int (length hs) - 1)) = Some endCol"
      by (simp add: match_run_def)
    have l: "0 < length hs" using that(2) by simp
    have "\<exists>ws'. addTable name ((c # ds) @ '':'' @ endCol @ number_toString (?r + int (length rows)))
        hs ?rs ?ws2 = Inr ws'"
    proof -
      have 1: "0 < column_number c" using cn by simp
      have 2: "1 \<le> column_number c + length hs - 1"
        using cn(1) that(2) by (cases hs) simp_all
      have 3: "column_number c + length hs - 1 \<le> 16384" using cn assms(4) by simp
      note addTable_cells(2) [OF dec [of endCol "number_toString (?r + int (length rows))"],
        where rows = ?rs and columns = hs and ws = ?ws2 and name = name]
      then show ?thesis
        using triv that(1,3) 1 2 3 by blast
    qed
    then show ?thesis
      by (simp only: reg [OF e])
  qed
qed

text \<open>A table under such an anchor, named or not.\<close>

lemma processTable_single_letter:
  assumes "is_upper c" and "ds \<noteq> []" and "list_all is_digit ds"
    and "table_startCell td = c # ds"
    and "t_data td = JArr (JObj kvs0 # rest)"
    and "list_all (\<lambda>r. r \<noteq> JNull \<and> r \<noteq> JUndefined) rest"
    and "column_index c + int (length kvs0) \<le> 26"
  shows "processTable ws td = Inr ws' \<Longrightarrow>
           cell_at ws' =
             cell_at (foldl update_cell ws
               (grid_writes [c] (int (parse_digits ds))
                  (table_cells (t_style td) (own_keys kvs0) (JObj kvs0 # rest))))"
    and "t_name td = None \<or> t_name td = Some []
           \<or> (0 < parse_digits ds \<and> kvs0 \<noteq> [] \<and> [] \<notin> fst ` set kvs0) \<Longrightarrow>
         \<exists>ws'. processTable ws td = Inr ws'"
proof -
  let ?r = "int (parse_digits ds)"
  let ?rows = "JObj kvs0 # rest"
  let ?hs = "own_keys kvs0"
  let ?ws2 = "foldl update_cell ws (grid_writes [c] ?r (table_cells (t_style td) ?hs ?rows))"
  have pa: "parse_anchor (table_startCell td) = Inr (?r, [c])"
    using parse_anchor_valid [of "[c]" ds] assms(1-4) by simp
  have nn: "list_all (\<lambda>r. r \<noteq> JNull \<and> r \<noteq> JUndefined) ?rows"
    using assms(6) by simp
  have w: "column_index c + int (length ?hs) \<le> 26"
    using assms(7) by (simp add: length_own_keys)
  note body = table_body_eq [OF assms(5) _ pa nn, of ?hs ws, simplified]
  note rt = register_table_cells [OF assms(1-3) w nn, where ws = ws and tstyle = "t_style td"]
  show "cell_at ws' = cell_at ?ws2" if ok: "processTable ws td = Inr ws'"
  proof (cases "t_name td")
    case None
    with ok body show ?thesis by (simp add: processTable_def)
  next
    case (Some name)
    show ?thesis
    proof (cases "name = []")
      case True
      with ok body Some show ?thesis by (simp add: processTable_def)
    next
      case False
      with ok body Some
      have "register_table name (c # ds) [c] ?r ?hs ?rows ?ws2 = Inr ws'"
        by (simp add: processTable_def assms(4) split: sum.splits)
      then show ?thesis by (rule rt(1))
    qed
  qed
  show "\<exists>ws'. processTable ws td = Inr ws'"
    if h: "t_name td = None \<or> t_name td = Some []
           \<or> (0 < parse_digits ds \<and> kvs0 \<noteq> [] \<and> [] \<notin> fst ` set kvs0)"
  proof (cases "t_name td")
    case None
    with body show ?thesis by (simp add: processTable_def)
  next
    case (Some name)
    show ?thesis
    proof (cases "name = []")
      case True
      with body Some show ?thesis by (simp add: processTable_def)
    next
      case False
      with h Some have c: "0 < parse_digits ds" "kvs0 \<noteq> []" "[] \<notin> fst ` set kvs0"
        by simp_all
      have "?hs \<noteq> []"
        using c(2) length_own_keys [of kvs0] by (cases kvs0) auto
      moreover have "[] \<notin> set ?hs"
        using c(3) by (simp add: set_own_keys)
      ultimately obtain ws' where "register_table name (c # ds) [c] ?r ?hs ?rows ?ws2 = Inr ws'"
        using rt(2) [OF c(1)] by blast
      with body Some False show ?thesis
        by (simp add: processTable_def assms(4))
    qed
  qed
qed

text \<open>
  C6, as the claim states it, does not hold.
  \<^item> The columns are not in the insertion order of the first row when one of its keys is
    an array index: with the first row \<^verbatim>\<open>{"Product": "Widget", "2024": 7}\<close> the first
    column is 2024 and the second is Product.
  \<^item> The columns are not always written side by side: the address resolver wraps after Z
    and reads the first letter of the anchor only. Under the anchor Z1 the second key is
    written in column A and the column AA right of Z stays empty; under the anchor AB1 the
    table is written from A1 and AB1 stays empty.
  \<^item> A key that a later row lacks does not always render blank: a row without the key
    \<^verbatim>\<open>valueOf\<close> has the member it inherits under that name, a function, and the cell
    holds it.
  \<^item> A named table whose first row has the empty string as a key is refused by
    \<^verbatim>\<open>addTable\<close>, and the writer throws.
  \<^item> For a named table, \<^verbatim>\<open>addTable\<close> stores the names and the values once more, in the
    columns that follow the anchor column in the sheet: under the anchor Z1 the second key
    and its value are then in column A and also in column AA.
\<close>

theorem processTable_columns_deviate:
  "(case processTable empty_worksheet
          \<lparr>t_name = None, t_range = None,
           t_data = JArr [JObj [(''Product'', JStr ''Widget''), (''2024'', JNum 7)]],
           t_style = JUndefined\<rparr> of
      Inl e \<Rightarrow> False
    | Inr ws' \<Rightarrow>
        cvalue (cell_at ws' ''A1'') = JStr ''2024''
        \<and> cvalue (cell_at ws' ''B1'') = JStr ''Product''
        \<and> cvalue (cell_at ws' ''A2'') = JNum 7
        \<and> cvalue (cell_at ws' ''B2'') = JStr ''Widget'')
   \<and> map fst [(''Product'', JStr ''Widget''), (''2024'', JNum 7)] = [''Product'', ''2024'']
   \<and> (case processTable empty_worksheet
          \<lparr>t_name = None, t_range = Some ''Z1'',
           t_data = JArr [JObj [(''a'', JNum 1), (''b'', JNum 2)]],
           t_style = JUndefined\<rparr> of
        Inl e \<Rightarrow> False
      | Inr ws' \<Rightarrow>
          cvalue (cell_at ws' ''Z1'') = JStr ''a''
          \<and> cvalue (cell_at ws' ''A1'') = JStr ''b''
          \<and> cvalue (cell_at ws' ''A2'') = JNum 2
          \<and> cell_at ws' ''AA1'' = empty_cell
          \<and> cell_at ws' ''AA2'' = empty_cell)
   \<and> encodeAddress 1 27 = ''AA1'' \<and> encodeAddress 1 28 = ''AB1''
   \<and> (case processTable empty_worksheet
          \<lparr>t_name = None, t_range = Some ''AB1'',
           t_data = JArr [JObj [(''a'', JNum 1)]],
           t_style = JUndefined\<rparr> of
        Inl e \<Rightarrow> False
      | Inr ws' \<Rightarrow>
          cvalue (cell_at ws' ''A1'') = JStr ''a''
          \<and> cvalue (cell_at ws' ''A2'') = JNum 1
          \<and> cell_at ws' ''AB1'' = empty_cell
          \<and> cell_at ws' ''AB2'' = empty_cell)
   \<and> (case processTable empty_worksheet
          \<lparr>t_name = None, t_range = None,
           t_data = JArr [JObj [(''valueOf'', JNum 1)], JObj []],
           t_style = JUndefined\<rparr> of
        Inl e \<Rightarrow> False
      | Inr ws' \<Rightarrow>
          cvalue (cell_at ws' ''A1'') = JStr ''valueOf''
          \<and> cvalue (cell_at ws' ''A3'') = JNative ''function valueOf() { [native code] }'')
   \<and> processTable empty_worksheet
          \<lparr>t_name = Some ''T'', t_range = None,
           t_data = JArr [JObj [('''', JNum 1)]],
           t_style = JUndefined\<rparr>
       = Inl (APIError ''Table processing failed: Column 0 must have a name'' 422)
   \<and> (case processTable empty_worksheet
          \<lparr>t_name = Some ''T'', t_range = Some ''Z1'',
           t_data = JArr [JObj [(''a'', JNum 1), (''b'', JNum 2)]],
           t_style = JUndefined\<rparr> of
        Inl e \<Rightarrow> False
      | Inr ws' \<Rightarrow>
          cvalue (cell_at ws' ''Z1'') = JStr ''a''
          \<and> cvalue (cell_at ws' ''A1'') = JStr ''b''
          \<and> cvalue (cell_at ws' ''AA1'') = JStr ''b''
          \<and> cvalue (cell_at ws' ''A2'') = JNum 2
          \<and> cvalue (cell_at ws' ''AA2'') = JNum 2)"
proof -
  have up: "list_all is_upper ''A''" "list_all is_upper ''Z''" "list_all is_upper ''AB''"
    by (simp_all add: is_upper_def)
  have dg: "list_all is_digit ''1''" by (simp add: is_digit_def)
  have p: "int (parse_digits ''1'') = 1" by (simp add: parse_digits_def)
  have a: "getCellAddress ''A'' 1 0 = ''A1''" "getCellAddress ''A'' 1 1 = ''B1''"
    "getCellAddress ''A'' 2 0 = ''A2''" "getCellAddress ''A'' 2 1 = ''B2''"
    "getCellAddress ''A'' 3 0 = ''A3''"
    by code_simp+
  have z: "getCellAddress ''Z'' 1 0 = ''Z1''" "getCellAddress ''Z'' 1 1 = ''A1''"
    "getCellAddress ''Z'' 2 0 = ''Z2''" "getCellAddress ''Z'' 2 1 = ''A2''"
    by code_simp+
  have ab: "getCellAddress ''AB'' 1 0 = ''A1''" "getCellAddress ''AB'' 2 0 = ''A2''"
    by code_simp+
  have en: "encodeAddress 1 27 = ''AA1''" "encodeAddress 1 28 = ''AB1''"
    by code_simp+
  have ew: "cell_at empty_worksheet x = empty_cell" for x
    by (simp add: empty_worksheet_def)

  let ?k1 = "[(''Product'', JStr ''Widget''), (''2024'', JNum 7)]"
  let ?td1 = "\<lparr>t_name = None, t_range = None, t_data = JArr [JObj ?k1],
              t_style = JUndefined\<rparr>"
  have k1: "own_keys ?k1 = [''2024'', ''Product'']"
    by (simp add: own_keys_def is_array_index_def is_digit_def parse_digits_def)
  from processTable_cells [of "''A''" "''1''" ?td1 ?k1 "[]" empty_worksheet] up dg
  obtain w1 where w1: "processTable empty_worksheet ?td1 = Inr w1"
    and c1: "\<And>j. j < length ?k1 \<Longrightarrow>
          cell_at w1 (getCellAddress ''A'' (int (parse_digits ''1'')) (int j)) =
            fst (header_cell JUndefined (own_keys ?k1 ! j)
                   (cell_at empty_worksheet (getCellAddress ''A'' (int (parse_digits ''1'')) (int j))))"
    and b1: "\<And>i j. i < Suc (length ([] :: jvalue list)) \<and> j < length ?k1 \<Longrightarrow>
          cell_at w1 (getCellAddress ''A'' (int (parse_digits ''1'') + int i + 1) (int j)) =
            fst (body_cell JUndefined i (js_get ((JObj ?k1 # []) ! i) (own_keys ?k1 ! j))
                   (cell_at empty_worksheet
                      (getCellAddress ''A'' (int (parse_digits ''1'') + int i + 1) (int j))))"
    by (auto simp: table_startCell_def)
  have r1: "cvalue (cell_at w1 ''A1'') = JStr ''2024''"
    "cvalue (cell_at w1 ''B1'') = JStr ''Product''"
    "cvalue (cell_at w1 ''A2'') = JNum 7"
    "cvalue (cell_at w1 ''B2'') = JStr ''Widget''"
    using c1 [of 0] c1 [of 1] b1 [of 0 0] b1 [of 0 1]
    by (simp_all add: p a k1 header_cell_cvalue body_cell_cvalue)

  let ?k2 = "[(''a'', JNum 1), (''b'', JNum 2)]"
  let ?td2 = "\<lparr>t_name = None, t_range = Some ''Z1'', t_data = JArr [JObj ?k2],
              t_style = JUndefined\<rparr>"
  have k2: "own_keys ?k2 = [''a'', ''b'']"
    by (simp add: own_keys_def is_array_index_def is_digit_def)
  from processTable_cells [of "''Z''" "''1''" ?td2 ?k2 "[]" empty_worksheet] up dg
  obtain w2 where w2: "processTable empty_worksheet ?td2 = Inr w2"
    and c2: "\<And>j. j < length ?k2 \<Longrightarrow>
          cell_at w2 (getCellAddress ''Z'' (int (parse_digits ''1'')) (int j)) =
            fst (header_cell JUndefined (own_keys ?k2 ! j)
                   (cell_at empty_worksheet (getCellAddress ''Z'' (int (parse_digits ''1'')) (int j))))"
    and b2: "\<And>i j. i < Suc (length ([] :: jvalue list)) \<and> j < length ?k2 \<Longrightarrow>
          cell_at w2 (getCellAddress ''Z'' (int (parse_digits ''1'') + int i + 1) (int j)) =
            fst (body_cell JUndefined i (js_get ((JObj ?k2 # []) ! i) (own_keys ?k2 ! j))
                   (cell_at empty_worksheet
                      (getCellAddress ''Z'' (int (parse_digits ''1'') + int i + 1) (int j))))"
    and f2: "\<And>x. (\<forall>i j. i < Suc (Suc (length ([] :: jvalue list))) \<and> j < length ?k2 \<longrightarrow>
                x \<noteq> getCellAddress ''Z'' (int (parse_digits ''1'') + int i) (int j))
            \<Longrightarrow> cell_at w2 x = cell_at empty_worksheet x"
    by (auto simp: table_startCell_def split_first_def)
  have r2: "cvalue (cell_at w2 ''Z1'') = JStr ''a''"
    "cvalue (cell_at w2 ''A1'') = JStr ''b''"
    "cvalue (cell_at w2 ''A2'') = JNum 2"
    using c2 [of 0] c2 [of 1] b2 [of 0 1]
    by (simp_all add: p z k2 header_cell_cvalue body_cell_cvalue)
  have o2: "x \<noteq> getCellAddress ''Z'' (int (parse_digits ''1'') + int i) (int j)"
    if "x = ''AA1'' \<or> x = ''AA2''" and "i < Suc (Suc 0) \<and> j < length ?k2" for x i j
  proof -
    from that(2) consider "i = 0" "j = 0" | "i = 0" "j = 1" | "i = 1" "j = 0" | "i = 1" "j = 1"
      by (auto simp: less_Suc_eq)
    then show ?thesis
      using that(1) p z by cases auto
  qed
  have "cell_at w2 ''AA1'' = cell_at empty_worksheet ''AA1''"
    by (rule f2) (use o2 [of "''AA1''"] in simp)
  moreover have "cell_at w2 ''AA2'' = cell_at empty_worksheet ''AA2''"
    by (rule f2) (use o2 [of "''AA2''"] in simp)
  ultimately have e2: "cell_at w2 ''AA1'' = empty_cell" "cell_at w2 ''AA2'' = empty_cell"
    by (simp_all add: ew)

  let ?k3 = "[(''a'', JNum 1)]"
  let ?td3 = "\<lparr>t_name = None, t_range = Some ''AB1'', t_data = JArr [JObj ?k3],
              t_style = JUndefined\<rparr>"
  have k3: "own_keys ?k3 = [''a'']"
    by (simp add: own_keys_def is_array_index_def is_digit_def)
  from processTable_cells [of "''AB''" "''1''" ?td3 ?k3 "[]" empty_worksheet] up dg
  obtain w3 where w3: "processTable empty_worksheet ?td3 = Inr w3"
    and c3: "\<And>j. j < length ?k3 \<Longrightarrow>
          cell_at w3 (getCellAddress ''AB'' (int (parse_digits ''1'')) (int j)) =
            fst (header_cell JUndefined (own_keys ?k3 ! j)
                   (cell_at empty_worksheet (getCellAddress ''AB'' (int (parse_digits ''1'')) (int j))))"
    and b3: "\<And>i j. i < Suc (length ([] :: jvalue list)) \<and> j < length ?k3 \<Longrightarrow>
          cell_at w3 (getCellAddress ''AB'' (int (parse_digits ''1'') + int i + 1) (int j)) =
            fst (body_cell JUndefined i (js_get ((JObj ?k3 # []) ! i) (own_keys ?k3 ! j))
                   (cell_at empty_worksheet
                      (getCellAddress ''AB'' (int (parse_digits ''1'') + int i + 1) (int j))))"
    and f3: "\<And>x. (\<forall>i j. i < Suc (Suc (length ([] :: jvalue list))) \<and> j < length ?k3 \<longrightarrow>
                x \<noteq> getCellAddress ''AB'' (int (parse_digits ''1'') + int i) (int j))
            \<Longrightarrow> cell_at w3 x = cell_at empty_worksheet x"
    by (auto simp: table_startCell_def split_first_def)
  have r3: "cvalue (cell_at w3 ''A1'') = JStr ''a''" "cvalue (cell_at w3 ''A2'') = JNum 1"
    using c3 [of 0] b3 [of 0 0]
    by (simp_all add: p ab k3 header_cell_cvalue body_cell_cvalue)
  have o3: "x \<noteq> getCellAddress ''AB'' (int (parse_digits ''1'') + int i) (int j)"
    if "x = ''AB1'' \<or> x = ''AB2''" and "i < Suc (Suc 0) \<and> j < length ?k3" for x i j
  proof -
    from that(2) consider "i = 0" "j = 0" | "i = 1" "j = 0"
      by (auto simp: less_Suc_eq)
    then show ?thesis
      using that(1) p ab by cases auto
  qed
  have "cell_at w3 ''AB1'' = cell_at empty_worksheet ''AB1''"
    by (rule f3) (use o3 [of "''AB1''"] in simp)
  moreover have "cell_at w3 ''AB2'' = cell_at empty_worksheet ''AB2''"
    by (rule f3) (use o3 [of "''AB2''"] in simp)
  ultimately have e3: "cell_at w3 ''AB1'' = empty_cell" "cell_at w3 ''AB2'' = empty_cell"
    by (simp_all add: ew)

  let ?k4 = "[(''valueOf'', JNum 1)]"
  let ?td4 = "\<lparr>t_name = None, t_range = None, t_data = JArr [JObj ?k4, JObj []],
              t_style = JUndefined\<rparr>"
  have k4: "own_keys ?k4 = [''valueOf'']"
    by (simp add: own_keys_def is_array_index_def is_digit_def)
  have v4: "proto_lookup ''Object'' (JObj []) [] ''valueOf'' =
      JNative ''function valueOf() { [native code] }''"
    by (simp add: proto_lookup_def object_methods_def native_function_def)
  from processTable_cells [of "''A''" "''1''" ?td4 ?k4 "[JObj []]" empty_worksheet] up dg
  obtain w4 where w4: "processTable empty_worksheet ?td4 = Inr w4"
    and c4: "\<And>j. j < length ?k4 \<Longrightarrow>
          cell_at w4 (getCellAddress ''A'' (int (parse_digits ''1'')) (int j)) =
            fst (header_cell JUndefined (own_keys ?k4 ! j)
                   (cell_at empty_worksheet (getCellAddress ''A'' (int (parse_digits ''1'')) (int j))))"
    and b4: "\<And>i j. i < Suc (length [JObj []]) \<and> j < length ?k4 \<Longrightarrow>
          cell_at w4 (getCellAddress ''A'' (int (parse_digits ''1'') + int i + 1) (int j)) =
            fst (body_cell JUndefined i (js_get ((JObj ?k4 # [JObj []]) ! i) (own_keys ?k4 ! j))
                   (cell_at empty_worksheet
                      (getCellAddress ''A'' (int (parse_digits ''1'') + int i + 1) (int j))))"
    by (auto simp: table_startCell_def)
  have r4: "cvalue (cell_at w4 ''A1'') = JStr ''valueOf''"
    "cvalue (cell_at w4 ''A3'') = JNative ''function valueOf() { [native code] }''"
    using c4 [of 0] b4 [of 1 0]
    by (simp_all add: p a k4 v4 header_cell_cvalue body_cell_cvalue)

  let ?k5 = "[('''', JNum 1)]"
  let ?td5 = "\<lparr>t_name = Some ''T'', t_range = None, t_data = JArr [JObj ?k5],
              t_style = JUndefined\<rparr>"
  have k5: "own_keys ?k5 = ['''']"
    by (simp add: own_keys_def is_array_index_def)
  have pa: "parse_anchor ''A1'' = Inr (1, ''A'')"
    by code_simp
  have m5: "match_run is_upper (getCellAddress ''A'' 1 0) = Some ''A''"
    by code_simp
  have n: "number_toString 0 = ''0''" "number_toString 2 = ''2''"
    by code_simp+
  have at: "addTable ''T'' ''A1:A2'' [''''] [[JNum 1]] w =
      Inl (Error ''Column 0 must have a name'')" for w
    by (simp add: addTable_def decodeAddress_def is_upper_def is_digit_def Let_def n)
  have "table_body empty_worksheet ?td5 = Inl (Error ''Column 0 must have a name'')"
    using table_body_eq [of ?td5 "JObj ?k5" "[]" "['''']" 1 "''A''" empty_worksheet]
      register_table_eq [of "''A''" "['''']" "''A''" "[JObj ?k5]" "''T''" "''A1''" 1]
    by (simp add: table_startCell_def k5 pa m5 n at)
  then have r5: "processTable empty_worksheet ?td5 =
      Inl (APIError ''Table processing failed: Column 0 must have a name'' 422)"
    by (simp add: processTable_def)

  let ?td6 = "\<lparr>t_name = Some ''T'', t_range = Some ''Z1'', t_data = JArr [JObj ?k2],
              t_style = JUndefined\<rparr>"
  let ?ws2 = "foldl update_cell empty_worksheet
                (grid_writes ''Z'' 1 (table_cells JUndefined [''a'', ''b''] [JObj ?k2]))"
  let ?ws3 = "foldl update_cell ?ws2
                (store_writes 1 26 [[JStr ''a'', JStr ''b''], [JNum 1, JNum 2]])"
  have pz: "parse_anchor ''Z1'' = Inr (1, ''Z'')"
    by code_simp
  have m6: "match_run is_upper (getCellAddress ''Z'' 1 1) = Some ''A''"
    by code_simp
  have d6: "decodeAddress ''Z1:A2'' = Inr (Some (''Z'', 26), Some (''1'', 1))"
    by (simp add: decodeAddress_def is_upper_def is_digit_def)
  have at6: "addTable ''T'' ''Z1:A2'' [''a'', ''b''] [[JNum 1, JNum 2]] w =
      Inr ((foldl update_cell w (store_writes 1 26 [[JStr ''a'', JStr ''b''], [JNum 1, JNum 2]]))
           \<lparr>tables := filter (\<lambda>t. reg_name t \<noteq> ''T'')
                       (tables (foldl update_cell w
                          (store_writes 1 26 [[JStr ''a'', JStr ''b''], [JNum 1, JNum 2]])))
                     @ [\<lparr>reg_name = ''T'', reg_ref = ''Z1:A2'', reg_columns = [''a'', ''b''],
                         reg_rows = [[JNum 1, JNum 2]]\<rparr>]\<rparr>)" for w
    by (simp add: addTable_def d6 Let_def)
  have "table_body empty_worksheet ?td6 =
      addTable ''T'' ''Z1:A2'' [''a'', ''b''] [[JNum 1, JNum 2]] ?ws2"
    using table_body_eq [of ?td6 "JObj ?k2" "[]" "[''a'', ''b'']" 1 "''Z''" empty_worksheet]
      register_table_eq [of "''Z''" "[''a'', ''b'']" "''A''" "[JObj ?k2]" "''T''" "''Z1''" 1]
    by (simp add: table_startCell_def split_first_def k2 pz m6 n)
  then obtain w6 where w6: "processTable empty_worksheet ?td6 = Inr w6"
    and c6: "cell_at w6 = cell_at ?ws3"
    by (simp add: processTable_def at6)
  have s6: "store_writes 1 26 [[JStr ''a'', JStr ''b''], [JNum 1, JNum 2]] =
      [(encodeAddress 1 26, \<lambda>c. (set_value (JStr ''a'') c, [])),
       (encodeAddress 1 27, \<lambda>c. (set_value (JStr ''b'') c, [])),
       (encodeAddress 2 26, \<lambda>c. (set_value (JNum 1) c, [])),
       (encodeAddress 2 27, \<lambda>c. (set_value (JNum 2) c, []))]"
    by (simp add: store_writes_def enumerate_eq_zip upt_rec)
  have en6: "encodeAddress 1 26 = ''Z1''" "encodeAddress 2 26 = ''Z2''"
    "encodeAddress 2 27 = ''AA2''"
    by code_simp+
  have u6: "is_upper CHR ''Z''" by (simp add: is_upper_def)
  have "cell_at ?ws2 (getCellAddress ''Z'' 1 (int 1)) =
      fst (header_cell JUndefined ([''a'', ''b''] ! 1)
             (cell_at empty_worksheet (getCellAddress ''Z'' 1 (int 1))))"
    by (rule table_writes_cells(1) [OF u6]) simp_all
  then have h6: "cvalue (cell_at ?ws2 ''A1'') = JStr ''b''"
    by (simp add: z header_cell_cvalue)
  have "cell_at ?ws2 (getCellAddress ''Z'' (1 + int 0 + 1) (int 1)) =
      fst (body_cell JUndefined 0 (js_get ([JObj ?k2] ! 0) ([''a'', ''b''] ! 1))
             (cell_at empty_worksheet (getCellAddress ''Z'' (1 + int 0 + 1) (int 1))))"
    by (rule table_writes_cells(2) [OF u6]) simp_all
  then have b6: "cvalue (cell_at ?ws2 ''A2'') = JNum 2"
    by (simp add: z body_cell_cvalue)
  have r6: "cvalue (cell_at w6 ''Z1'') = JStr ''a''"
    "cvalue (cell_at w6 ''A1'') = JStr ''b''"
    "cvalue (cell_at w6 ''AA1'') = JStr ''b''"
    "cvalue (cell_at w6 ''A2'') = JNum 2"
    "cvalue (cell_at w6 ''AA2'') = JNum 2"
    using h6 b6 unfolding c6 s6
    by (simp_all add: en en6 cell_at_update_cell set_value_def)
  show ?thesis
    using w1 r1 w2 r2 e2 en w3 r3 e3 w4 r4 r5 w6 r6 by simp
qed

text \<open>
  C6, amended. For a table whose anchor is one capital letter and a row number, whose
  data is a non-empty array with an object as first row and no \<^verbatim>\<open>null\<close> among the other
  rows, and whose columns do not reach beyond column Z (the zero-based index of the anchor
  column plus the number of keys of the first row is at most 26):
  \<^item> the writer returns normally when the table has no name, and also when it has one,
    the anchor row is positive and the first row has at least one key and no empty key;
  \<^item> whenever it returns, the cells written are exactly one column for every key of the
    first row, in the order of \<^verbatim>\<open>Object.keys\<close>, side by side from the anchor: the header
    cell of column \<open>j\<close> holds the \<open>j\<close>-th key, the cell of data row \<open>i\<close> in column \<open>j\<close>
    holds what the row has under that key, blank when that is \<^verbatim>\<open>undefined\<close>, and every
    other cell of the sheet is as it was, so a key that is not a key of the first row is
    not written;
  \<^item> the order of \<^verbatim>\<open>Object.keys\<close> is: the keys that are array indices first, in
    ascending numeric order, then the other keys in insertion order, which is the
    insertion order of the first row when none of its keys is an array index;
  \<^item> what a row object has under a key is its own value when it has that key, and
    \<^verbatim>\<open>undefined\<close> when it has not and the key is not one of the names that every object
    inherits (\<^verbatim>\<open>constructor\<close>, \<^verbatim>\<open>__proto__\<close> and the methods of \<^verbatim>\<open>Object.prototype\<close>).
\<close>

theorem processTable_columns:
  assumes "is_upper c" and "ds \<noteq> []" and "list_all is_digit ds"
    and "table_startCell td = c # ds"
    and "t_data td = JArr (JObj kvs0 # rest)"
    and "list_all (\<lambda>r. r \<noteq> JNull \<and> r \<noteq> JUndefined) rest"
    and "column_index c + int (length kvs0) \<le> 26"
  shows "(t_name td = None \<or> t_name td = Some []
            \<or> (0 < parse_digits ds \<and> kvs0 \<noteq> [] \<and> [] \<notin> fst ` set kvs0)
          \<longrightarrow> (\<exists>ws'. processTable ws td = Inr ws'))
     \<and> (\<forall>ws'. processTable ws td = Inr ws' \<longrightarrow>
          (\<forall>j. j < length kvs0 \<longrightarrow>
             cvalue (cell_at ws' (encodeAddress (int (parse_digits ds)) (column_number c + j))) =
               JStr (own_keys kvs0 ! j))
        \<and> (\<forall>i j. i < Suc (length rest) \<and> j < length kvs0 \<longrightarrow>
             cvalue (cell_at ws' (encodeAddress (int (parse_digits ds) + int i + 1)
                                    (column_number c + j))) =
               (if js_get ((JObj kvs0 # rest) ! i) (own_keys kvs0 ! j) = JUndefined then JNull
                else js_get ((JObj kvs0 # rest) ! i) (own_keys kvs0 ! j)))
        \<and> (\<forall>a. (\<forall>i j. i < Suc (Suc (length rest)) \<and> j < length kvs0 \<longrightarrow>
                   a \<noteq> encodeAddress (int (parse_digits ds) + int i) (column_number c + j))
               \<longrightarrow> cell_at ws' a = cell_at ws a))
     \<and> own_keys kvs0 =
         sort_key parse_digits (filter is_array_index (map fst kvs0))
         @ filter (\<lambda>k. \<not> is_array_index k) (map fst kvs0)
     \<and> set (own_keys kvs0) = fst ` set kvs0
     \<and> length (own_keys kvs0) = length kvs0
     \<and> (list_all (\<lambda>k. \<not> is_array_index k) (map fst kvs0) \<longrightarrow> own_keys kvs0 = map fst kvs0)
     \<and> (\<forall>kvs k v. map_of kvs k = Some v \<longrightarrow> js_get (JObj kvs) k = v)
     \<and> (\<forall>kvs k. map_of kvs k = None \<and> k \<noteq> ''constructor'' \<and> k \<noteq> ''__proto__''
                 \<and> k \<notin> set object_methods
               \<longrightarrow> js_get (JObj kvs) k = JUndefined)"
proof -
  let ?r = "int (parse_digits ds)"
  let ?rows = "JObj kvs0 # rest"
  let ?hs = "own_keys kvs0"
  let ?ws2 = "foldl update_cell ws (grid_writes [c] ?r (table_cells (t_style td) ?hs ?rows))"
  note sl = processTable_single_letter [OF assms, where ws = ws]
  have r0: "0 \<le> ?r" by simp
  have w: "column_index c + int (length ?hs) \<le> 26"
    using assms(7) by (simp add: length_own_keys)
  note te = table_writes_encode [OF assms(1) r0 w, where ws = ws and tstyle = "t_style td"
      and rows = ?rows]
  have ex: "t_name td = None \<or> t_name td = Some []
            \<or> (0 < parse_digits ds \<and> kvs0 \<noteq> [] \<and> [] \<notin> fst ` set kvs0)
          \<longrightarrow> (\<exists>ws'. processTable ws td = Inr ws')"
    using sl(2) by blast
  have cells: "\<forall>ws'. processTable ws td = Inr ws' \<longrightarrow>
          (\<forall>j. j < length kvs0 \<longrightarrow>
             cvalue (cell_at ws' (encodeAddress ?r (column_number c + j))) =
               JStr (own_keys kvs0 ! j))
        \<and> (\<forall>i j. i < Suc (length rest) \<and> j < length kvs0 \<longrightarrow>
             cvalue (cell_at ws' (encodeAddress (?r + int i + 1) (column_number c + j))) =
               (if js_get (?rows ! i) (own_keys kvs0 ! j) = JUndefined then JNull
                else js_get (?rows ! i) (own_keys kvs0 ! j)))
        \<and> (\<forall>a. (\<forall>i j. i < Suc (Suc (length rest)) \<and> j < length kvs0 \<longrightarrow>
                   a \<noteq> encodeAddress (?r + int i) (column_number c + j))
               \<longrightarrow> cell_at ws' a = cell_at ws a)"
  proof (intro allI impI)
    fix ws'
    assume "processTable ws td = Inr ws'"
    from sl(1) [OF this] have c: "cell_at ws' = cell_at ?ws2" .
    have 1: "\<forall>j. j < length kvs0 \<longrightarrow>
             cvalue (cell_at ws' (encodeAddress ?r (column_number c + j))) =
               JStr (own_keys kvs0 ! j)"
      using te(1) by (simp add: c length_own_keys header_cell_cvalue)
    have 2: "\<forall>i j. i < Suc (length rest) \<and> j < length kvs0 \<longrightarrow>
             cvalue (cell_at ws' (encodeAddress (?r + int i + 1) (column_number c + j))) =
               (if js_get (?rows ! i) (own_keys kvs0 ! j) = JUndefined then JNull
                else js_get (?rows ! i) (own_keys kvs0 ! j))"
    proof (intro allI impI)
      fix i j
      assume "i < Suc (length rest) \<and> j < length kvs0"
      then have "i < length ?rows" and "j < length ?hs"
        by (simp_all add: length_own_keys)
      from te(2) [OF this]
      show "cvalue (cell_at ws' (encodeAddress (?r + int i + 1) (column_number c + j))) =
               (if js_get (?rows ! i) (own_keys kvs0 ! j) = JUndefined then JNull
                else js_get (?rows ! i) (own_keys kvs0 ! j))"
        by (simp only: c body_cell_cvalue)
    qed
    have 3: "\<forall>a. (\<forall>i j. i < Suc (Suc (length rest)) \<and> j < length kvs0 \<longrightarrow>
                   a \<noteq> encodeAddress (?r + int i) (column_number c + j))
               \<longrightarrow> cell_at ws' a = cell_at ws a"
    proof (intro allI impI)
      fix a
      assume h: "\<forall>i j. i < Suc (Suc (length rest)) \<and> j < length kvs0 \<longrightarrow>
                   a \<noteq> encodeAddress (?r + int i) (column_number c + j)"
      have "cell_at ?ws2 a = cell_at ws a"
        by (rule te(3)) (use h in \<open>simp add: length_own_keys\<close>)
      then show "cell_at ws' a = cell_at ws a"
        by (simp only: c)
    qed
    from 1 2 3 show "(\<forall>j. j < length kvs0 \<longrightarrow>
             cvalue (cell_at ws' (encodeAddress ?r (column_number c + j))) =
               JStr (own_keys kvs0 ! j))
        \<and> (\<forall>i j. i < Suc (length rest) \<and> j < length kvs0 \<longrightarrow>
             cvalue (cell_at ws' (encodeAddress (?r + int i + 1) (column_number c + j))) =
               (if js_get (?rows ! i) (own_keys kvs0 ! j) = JUndefined then JNull
                else js_get (?rows ! i) (own_keys kvs0 ! j)))
        \<and> (\<forall>a. (\<forall>i j. i < Suc (Suc (length rest)) \<and> j < length kvs0 \<longrightarrow>
                   a \<noteq> encodeAddress (?r + int i) (column_number c + j))
               \<longrightarrow> cell_at ws' a = cell_at ws a)"
      by (intro conjI)
  qed
  have k1: "own_keys kvs0 =
         sort_key parse_digits (filter is_array_index (map fst kvs0))
         @ filter (\<lambda>k. \<not> is_array_index k) (map fst kvs0)"
    by (simp add: own_keys_def Let_def)
  have k2: "list_all (\<lambda>k. \<not> is_array_index k) (map fst kvs0) \<longrightarrow> own_keys kvs0 = map fst kvs0"
    using own_keys_insertion_order by blast
  have g1: "\<forall>kvs k v. map_of kvs k = Some v \<longrightarrow> js_get (JObj kvs) k = v"
    by simp
  have g2: "\<forall>kvs k. map_of kvs k = None \<and> k \<noteq> ''constructor'' \<and> k \<noteq> ''__proto__''
                 \<and> k \<notin> set object_methods
               \<longrightarrow> js_get (JObj kvs) k = JUndefined"
    by (simp add: proto_lookup_def)
  show ?thesis
    by (rule conjI [OF ex conjI [OF cells conjI [OF k1 conjI [OF set_own_keys
          conjI [OF length_own_keys conjI [OF k2 conjI [OF g1 g2]]]]]]])
qed

theorem processTable_columns_witness:
  "\<exists>ws'. processTable empty_worksheet
            \<lparr>t_name = Some ''Staff'', t_range = Some ''B2:C4'',
             t_data = JArr [JObj [(''name'', JStr ''Ann''), (''dept'', JStr ''Eng'')],
                            JObj [(''dept'', JStr ''Ops''), (''extra'', JNum 1)]],
             t_style = JUndefined\<rparr> = Inr ws'
      \<and> cvalue (cell_at ws' ''B2'') = JStr ''name''
      \<and> cvalue (cell_at ws' ''C2'') = JStr ''dept''
      \<and> cvalue (cell_at ws' ''B3'') = JStr ''Ann''
      \<and> cvalue (cell_at ws' ''C3'') = JStr ''Eng''
      \<and> cvalue (cell_at ws' ''B4'') = JNull
      \<and> cvalue (cell_at ws' ''C4'') = JStr ''Ops''
      \<and> cell_at ws' ''D2'' = empty_cell
      \<and> cell_at ws' ''D4'' = empty_cell
      \<and> cell_at ws' ''A2'' = empty_cell"
proof -
  let ?kvs = "[(''name'', JStr ''Ann''), (''dept'', JStr ''Eng'')]"
  let ?rest = "[JObj [(''dept'', JStr ''Ops''), (''extra'', JNum 1)]]"
  let ?td = "\<lparr>t_name = Some ''Staff'', t_range = Some ''B2:C4'',
              t_data = JArr (JObj ?kvs # ?rest), t_style = JUndefined\<rparr>"
  have h1: "is_upper CHR ''B''" by (simp add: is_upper_def)
  have h2: "''2'' \<noteq> []" by simp
  have h3: "list_all is_digit ''2''" by (simp add: is_digit_def)
  have h4: "table_startCell ?td = CHR ''B'' # ''2''"
    by (simp add: table_startCell_def split_first_def)
  have h5: "t_data ?td = JArr (JObj ?kvs # ?rest)" by simp
  have h6: "list_all (\<lambda>r. r \<noteq> JNull \<and> r \<noteq> JUndefined) ?rest" by simp
  have h7: "column_index CHR ''B'' + int (length ?kvs) \<le> 26"
    by (simp add: column_index_def)
  have n: "list_all (\<lambda>k. \<not> is_array_index k) (map fst ?kvs)"
    by (simp add: is_array_index_def is_digit_def)
  have p: "int (parse_digits ''2'') = 2" "0 < parse_digits ''2''"
    by (simp_all add: parse_digits_def)
  have cn: "column_number CHR ''B'' = 2" by (simp add: column_number_def)
  have enc: "encodeAddress 2 2 = ''B2''" "encodeAddress 2 3 = ''C2''"
    "encodeAddress 3 2 = ''B3''" "encodeAddress 3 3 = ''C3''"
    "encodeAddress 4 2 = ''B4''" "encodeAddress 4 3 = ''C4''"
    by code_simp+
  have g: "proto_lookup ''Object'' (JObj []) [] ''name'' = JUndefined"
    by (simp add: proto_lookup_def object_methods_def)
  note t = processTable_columns [OF h1 h2 h3 h4 h5 h6 h7, of empty_worksheet]
  from t p obtain ws' where ws': "processTable empty_worksheet ?td = Inr ws'"
    by auto
  from t n have k: "own_keys ?kvs = map fst ?kvs"
    by blast
  from t ws' have c: "\<And>j. j < length ?kvs \<Longrightarrow>
          cvalue (cell_at ws' (encodeAddress (int (parse_digits ''2'')) (column_number CHR ''B'' + j))) =
            JStr (own_keys ?kvs ! j)"
    and b: "\<And>i j. i < Suc (length ?rest) \<and> j < length ?kvs \<Longrightarrow>
          cvalue (cell_at ws' (encodeAddress (int (parse_digits ''2'') + int i + 1)
                                 (column_number CHR ''B'' + j))) =
            (if js_get ((JObj ?kvs # ?rest) ! i) (own_keys ?kvs ! j) = JUndefined then JNull
             else js_get ((JObj ?kvs # ?rest) ! i) (own_keys ?kvs ! j))"
    and f: "\<And>a. (\<forall>i j. i < Suc (Suc (length ?rest)) \<and> j < length ?kvs \<longrightarrow>
                   a \<noteq> encodeAddress (int (parse_digits ''2'') + int i) (column_number CHR ''B'' + j))
               \<Longrightarrow> cell_at ws' a = cell_at empty_worksheet a"
    by blast+
  have "cvalue (cell_at ws' ''B2'') = JStr ''name''"
    using c [of 0] by (simp add: p cn enc k)
  moreover have "cvalue (cell_at ws' ''C2'') = JStr ''dept''"
    using c [of 1] by (simp add: p cn enc k)
  moreover have "cvalue (cell_at ws' ''B3'') = JStr ''Ann''"
    using b [of 0 0] by (simp add: p cn enc k)
  moreover have "cvalue (cell_at ws' ''C3'') = JStr ''Eng''"
    using b [of 0 1] by (simp add: p cn enc k)
  moreover have "cvalue (cell_at ws' ''B4'') = JNull"
    using b [of 1 0] by (simp add: p cn enc k g)
  moreover have "cvalue (cell_at ws' ''C4'') = JStr ''Ops''"
    using b [of 1 1] by (simp add: p cn enc k)
  moreover have o: "x \<noteq> encodeAddress (int (parse_digits ''2'') + int i) (column_number CHR ''B'' + j)"
    if "x = ''D2'' \<or> x = ''D4'' \<or> x = ''A2''"
      and "i < Suc (Suc (length ?rest)) \<and> j < length ?kvs" for x i j
  proof -
    from that(2) consider "i = 0" "j = 0" | "i = 0" "j = 1" | "i = 1" "j = 0" | "i = 1" "j = 1"
      | "i = 2" "j = 0" | "i = 2" "j = 1"
      by (auto simp: less_Suc_eq numeral_2_eq_2)
    then show ?thesis
      using that(1) p cn enc by cases auto
  qed
  have "cell_at ws' ''D2'' = cell_at empty_worksheet ''D2''"
    by (rule f) (use o [of "''D2''"] in blast)
  moreover have "cell_at ws' ''D4'' = cell_at empty_worksheet ''D4''"
    by (rule f) (use o [of "''D4''"] in blast)
  moreover have "cell_at ws' ''A2'' = cell_at empty_worksheet ''A2''"
    by (rule f) (use o [of "''A2''"] in blast)
  ultimately show ?thesis
    using ws' by (simp add: empty_worksheet_def)
qed

section \<open>Sheet formatting: automatic column width\<close>






section \<open>Template filler\<close>



























text \<open>
  C2. The claim holds for the row of the marker and the first element, and for data
  without an array under the key; the rows of the other elements are not filled. The row
  that \<^verbatim>\<open>insertRow(startRow + index, [])\<close> inserts has no cells, so the loop over its
  cells that strips the marker and substitutes the fields of the element has nothing to
  run on. For the template row \<^verbatim>\<open>{{#items}}{{product}}: {{qty}}\<close> and two elements the
  result is the row \<open>A: 1\<close> and an empty row below it; the text \<open>B: 2\<close> is nowhere.
\<close>

theorem fillWorksheetTemplate_inserted_rows_empty:
  "fillWorksheetTemplate [[JStr ''{{#items}}{{product}}: {{qty}}'']]
     [(''items'', JArr [JObj [(''product'', JStr ''A''), (''qty'', JNum 1)],
                        JObj [(''product'', JStr ''B''), (''qty'', JNum 2)]])]
   = ([[JStr ''A: 1''], []], [])"
  by code_simp

end
